theory Spec2Isabelle
  imports Complex_Main "HOL-Library.Sublist"
begin

section \<open>Python string primitives used by \<open>mystic/symbolic.py\<close>\<close>

text \<open>
  The module works on Python 2 byte strings; a string is a \<open>char list\<close>.
  Exceptions are values of the type \<open>error\<close>; \<open>Unmodelled\<close> marks an input
  on which the embedding makes no statement (a regular-expression metacharacter
  in a marker, a quote inside generated code, Python syntax beyond the
  expression subset interpreted below).
\<close>

datatype error =
    ValueError | IndexError | NameError | SyntaxError | TypeError
  | ZeroDivisionError | DimensionError string | Unmodelled

definition is_space :: "char \<Rightarrow> bool" where
  "is_space c = (c \<in> set [CHR '' '', CHR 0x09, CHR 0x0A, CHR 0x0B, CHR 0x0C, CHR 0x0D])"

definition is_digit :: "char \<Rightarrow> bool" where
  "is_digit c = (c \<in> set ''0123456789'')"

text \<open>\<open>s.lstrip(cs)\<close>, \<open>s.rstrip(cs)\<close>, \<open>s.strip(cs)\<close>: drop the characters of \<open>cs\<close> at an end.\<close>

definition lstrip_chars :: "string \<Rightarrow> string \<Rightarrow> string" where
  "lstrip_chars cs s = dropWhile (\<lambda>c. c \<in> set cs) s"

definition rstrip_chars :: "string \<Rightarrow> string \<Rightarrow> string" where
  "rstrip_chars cs s = rev (dropWhile (\<lambda>c. c \<in> set cs) (rev s))"

definition strip_chars :: "string \<Rightarrow> string \<Rightarrow> string" where
  "strip_chars cs s = rstrip_chars cs (lstrip_chars cs s)"

text \<open>\<open>s.strip()\<close>: drop white space at both ends.\<close>

definition strip :: "string \<Rightarrow> string" where
  "strip s = rev (dropWhile is_space (rev (dropWhile is_space s)))"

text \<open>\<open>s.find(sub) != -1\<close>: \<open>sub\<close> occurs in \<open>s\<close>.\<close>

fun contains :: "string \<Rightarrow> string \<Rightarrow> bool" where
  "contains [] sub = (sub = [])"
| "contains (c # cs) sub = (prefix sub (c # cs) \<or> contains cs sub)"

text \<open>
  \<open>s.split(sep)\<close> for a non-empty separator: cut at the occurrences of \<open>sep\<close>,
  found from the left without overlap. \<open>cur\<close> holds the current piece, reversed.
\<close>

fun split_go :: "string \<Rightarrow> string \<Rightarrow> string \<Rightarrow> string list" where
  "split_go sep cur [] = [rev cur]"
| "split_go sep cur (c # cs) =
     (if sep \<noteq> [] \<and> prefix sep (c # cs)
      then rev cur # split_go sep [] (drop (length sep - 1) cs)
      else split_go sep (c # cur) cs)"

definition py_split :: "string \<Rightarrow> string \<Rightarrow> string list" where
  "py_split s sep = split_go sep [] s"

text \<open>\<open>sep.join(xs)\<close>.\<close>

fun join :: "string \<Rightarrow> string list \<Rightarrow> string" where
  "join sep [] = []"
| "join sep [x] = x"
| "join sep (x # y # ys) = x @ sep @ join sep (y # ys)"

text \<open>
  \<open>s.replace(old, new)\<close>: every occurrence of \<open>old\<close>, found from the left without
  overlap, becomes \<open>new\<close>; an empty \<open>old\<close> matches before every character and at
  the end.
\<close>

fun replace_go :: "string \<Rightarrow> string \<Rightarrow> string \<Rightarrow> string" where
  "replace_go old new [] = []"
| "replace_go old new (c # cs) =
     (if old \<noteq> [] \<and> prefix old (c # cs)
      then new @ replace_go old new (drop (length old - 1) cs)
      else c # replace_go old new cs)"

definition replace :: "string \<Rightarrow> string \<Rightarrow> string \<Rightarrow> string" where
  "replace s old new =
     (if old = [] then concat (map (\<lambda>c. new @ [c]) s) @ new else replace_go old new s)"

text \<open>\<open>s.splitlines()\<close> on a byte string: lines end at LF, CR or CR LF.\<close>

fun splitlines_go :: "string \<Rightarrow> string \<Rightarrow> string list" where
  "splitlines_go cur [] = (if cur = [] then [] else [rev cur])"
| "splitlines_go cur (c # cs) =
     (if c = CHR 0x0A then rev cur # splitlines_go [] cs
      else if c = CHR 0x0D then
        (case cs of
           d # ds \<Rightarrow> if d = CHR 0x0A then rev cur # splitlines_go [] ds
                     else rev cur # splitlines_go [] cs
         | [] \<Rightarrow> rev cur # splitlines_go [] cs)
      else splitlines_go (c # cur) cs)"

definition splitlines :: "string \<Rightarrow> string list" where
  "splitlines s = splitlines_go [] s"

text \<open>\<open>str(n)\<close> for an integer, and \<open>int(s)\<close> for a string of decimal digits.\<close>

definition digit_char :: "nat \<Rightarrow> char" where
  "digit_char d = ''0123456789'' ! (d mod 10)"

fun str_nat :: "nat \<Rightarrow> string" where
  "str_nat n = (if n < 10 then [digit_char n] else str_nat (n div 10) @ [digit_char (n mod 10)])"

declare str_nat.simps [simp del]

definition str_int :: "int \<Rightarrow> string" where
  "str_int i = (if i < 0 then CHR ''-'' # str_nat (nat (- i)) else str_nat (nat i))"

definition digit_val :: "char \<Rightarrow> nat" where
  "digit_val c = length (takeWhile (\<lambda>d. d \<noteq> c) ''0123456789'')"

definition py_int :: "string \<Rightarrow> error + int" where
  "py_int s =
     (if s \<noteq> [] \<and> list_all is_digit s
      then Inr (int (foldl (\<lambda>a c. 10 * a + digit_val c) 0 s))
      else Inl ValueError)"

text \<open>Sequencing of computations that may raise.\<close>

definition bind :: "error + 'a \<Rightarrow> ('a \<Rightarrow> error + 'b) \<Rightarrow> error + 'b" where
  "bind m f = (case m of Inl e \<Rightarrow> Inl e | Inr v \<Rightarrow> f v)"

fun map_err :: "('a \<Rightarrow> error + 'b) \<Rightarrow> 'a list \<Rightarrow> error + 'b list" where
  "map_err f [] = Inr []"
| "map_err f (x # xs) =
     bind (f x) (\<lambda>y. bind (map_err f xs) (\<lambda>ys. Inr (y # ys)))"

section \<open>Variable renaming and extraction\<close>

text \<open>
  \<open>re.findall(base + '[0-9]+', line)\<close> for a base without regular-expression
  metacharacters: the matches are \<open>base\<close> followed by the longest run of digits,
  found from the left without overlap.
\<close>

definition re_literal :: "string \<Rightarrow> bool" where
  "re_literal base =
     list_all (\<lambda>c. c \<notin> set (''.^$*+?{}[]|()'' @ [CHR 0x5C])) base"

function findall :: "string \<Rightarrow> string \<Rightarrow> string list" where
  "findall base [] = []"
| "findall base (c # cs) =
     (let s = c # cs; ds = takeWhile is_digit (drop (length base) s) in
      if prefix base s \<and> ds \<noteq> []
      then (base @ ds) # findall base (drop (length base + length ds - 1) cs)
      else findall base cs)"
  by pat_completeness auto
termination
  by (relation "measure (\<lambda>(base, s). length s)") auto

text \<open>The order-preserving removal of duplicates done by \<open>if var not in varnamelist\<close>.\<close>

fun add_new :: "string list \<Rightarrow> string list \<Rightarrow> string list" where
  "add_new acc [] = acc"
| "add_new acc (v # vs) = add_new (if v \<in> set acc then acc else acc @ [v]) vs"

text \<open>\<open>get_variables(constraints, variables)\<close> with \<open>variables\<close> a string (the base).\<close>

definition get_variables_base :: "string \<Rightarrow> string \<Rightarrow> error + string list" where
  "get_variables_base constraints variables =
     (if \<not> re_literal variables then Inl Unmodelled
      else Inr (foldl (\<lambda>varnamelist equation. add_new varnamelist (findall variables equation))
                  [] (splitlines constraints)))"

text \<open>
  \<open>replace_variables(constraints, variables, markers)\<close> with \<open>markers\<close> a string.
  \<open>variablescopy.sort(comparator)\<close> is a stable sort by decreasing length;
  \<open>variables.index(item)\<close> is the first position of \<open>item\<close>.
\<close>

fun index_of :: "'a list \<Rightarrow> 'a \<Rightarrow> nat" where
  "index_of [] x = 0"
| "index_of (y # ys) x = (if x = y then 0 else Suc (index_of ys x))"

definition replace_variables_base :: "string \<Rightarrow> string list \<Rightarrow> string \<Rightarrow> string" where
  "replace_variables_base constraints variables markers =
     (let variablescopy = sort_key (\<lambda>v. - int (length v)) variables;
          indices = map (index_of variables) variablescopy;
          marker = (if markers \<in> set variables then ''_$$$$$$$$$$'' else markers);
          constraints' = foldl (\<lambda>cs i. replace cs (variables ! i) (marker @ str_nat i))
                           constraints indices
      in replace constraints' marker markers)"

text \<open>A marker or variable argument is a base string or a list of names.\<close>

datatype varspec = Base string | Names "string list"

text \<open>\<open>xs[i]\<close> with a non-negative index.\<close>

definition nth_err :: "'a list \<Rightarrow> nat \<Rightarrow> error + 'a" where
  "nth_err xs i = (if i < length xs then Inr (xs ! i) else Inl IndexError)"

text \<open>\<open>[int(v.strip(base)) for v in vars]\<close>.\<close>

definition indices_of :: "string \<Rightarrow> string list \<Rightarrow> error + int list" where
  "indices_of base vars = map_err (\<lambda>v. py_int (strip_chars base v)) vars"

fun replace_pairs :: "string \<Rightarrow> string list \<Rightarrow> (string \<times> int) list \<Rightarrow> error + string" where
  "replace_pairs equations markers [] = Inr equations"
| "replace_pairs equations markers ((v, i) # rest) =
     bind (nth_err markers (nat i)) (\<lambda>m. replace_pairs (replace equations v m) markers rest)"

definition replace_variables :: "string \<Rightarrow> string list \<Rightarrow> varspec \<Rightarrow> error + string" where
  "replace_variables constraints variables markers =
     (case markers of
        Names ms \<Rightarrow>
          (let equations = replace_variables_base constraints variables ''_'' in
           bind (get_variables_base equations ''_'') (\<lambda>vars.
           bind (indices_of ''_'' vars) (\<lambda>indices.
           replace_pairs equations ms (zip vars indices))))
      | Base m \<Rightarrow> Inr (replace_variables_base constraints variables m))"

definition get_variables :: "string \<Rightarrow> varspec \<Rightarrow> error + string list" where
  "get_variables constraints variables =
     (case variables of
        Names vs \<Rightarrow>
          (let equations = replace_variables_base constraints vs ''_'' in
           bind (get_variables_base equations ''_'') (\<lambda>vars.
           bind (indices_of ''_'' vars) (\<lambda>indices.
           map_err (\<lambda>i. nth_err vs (nat i)) (sort indices))))
      | Base b \<Rightarrow> get_variables_base constraints b)"

section \<open>The penalty-form and solver-form parsers\<close>

text \<open>\<open>xs[:n]\<close> for an integer \<open>n\<close>: a negative \<open>n\<close> counts from the end.\<close>

definition py_take :: "int \<Rightarrow> 'a list \<Rightarrow> 'a list" where
  "py_take n xs = (if 0 \<le> n then take (nat n) xs else take (length xs - nat (- n)) xs)"

text \<open>
  The common head of \<open>penalty_parser\<close> and \<open>constraints_parser\<close>: the constraint
  text with its variables canonical, the variable base and the dimension.
\<close>

definition parser_head :: "string \<Rightarrow> varspec \<Rightarrow> int option \<Rightarrow> error + (string \<times> string \<times> int)" where
  "parser_head constraints variables nvars =
     bind
       (case variables of
          Names vs \<Rightarrow>
            (let variables' = (case nvars of Some n \<Rightarrow> py_take n vs | None \<Rightarrow> vs) in
             Inr (replace_variables_base constraints variables' ''$'', ''$'',
                  int (length variables')))
        | Base varname \<Rightarrow>
            bind (get_variables_base constraints varname) (\<lambda>myvar.
              if myvar \<noteq> []
              then bind (indices_of varname myvar) (\<lambda>is.
                     Inr (constraints, varname, foldl max (hd is) (tl is) + 1))
              else Inr (constraints, varname, 0)))
       (\<lambda>(constraints', varname, ndim).
          Inr (constraints', varname, (case nvars of Some n \<Rightarrow> n | None \<Rightarrow> ndim)))"

text \<open>The loop over \<open>range(ndim)\<close> reversed, turning \<open>x3\<close> into \<open>x[3]\<close>.\<close>

definition index_vars :: "string \<Rightarrow> int \<Rightarrow> string \<Rightarrow> string" where
  "index_vars varname ndim line =
     foldl (\<lambda>fixed i. replace fixed (varname @ str_nat i) (''x['' @ str_nat i @ '']''))
       line (rev [0..<nat ndim])"

definition penalty_aliases :: "string \<Rightarrow> string" where
  "penalty_aliases c0 =
     (let c1 = (if contains c0 ''spread('' then replace c0 ''spread('' ''ptp('' else c0);
          c2 = (if contains c1 ''mean('' then replace c1 ''mean('' ''average('' else c1);
          c3 = (if contains c2 ''variance('' then replace c2 ''variance('' ''var('' else c2)
      in c3)"

text \<open>
  The dictionary \<open>eqn\<close> built from the pieces of the split line:
  \<open>split[0].rstrip('=').strip()\<close> and \<open>split[-1].lstrip('=').strip()\<close>.
\<close>

definition eqn :: "string list \<Rightarrow> string \<times> string" where
  "eqn split = (strip (rstrip_chars ''='' (hd split)), strip (lstrip_chars ''='' (last split)))"

text \<open>
  The state of the loop of \<open>penalty_parser\<close>: what was printed, and the two
  lists \<open>ineqconstraints\<close> and \<open>eqconstraints\<close>.
\<close>

type_synonym penalty_state = "string list \<times> string list \<times> string list"

definition penalty_split :: "string \<Rightarrow> string list \<times> string" where
  "penalty_split constraint =
     (let split = py_split constraint ''>''; direction = ''>'';
          (split, direction) =
             (if length split = 1 then (py_split constraint ''<'', ''<'') else (split, direction));
          (split, direction) =
             (if length split = 1 then (py_split constraint ''='', ''='') else (split, direction))
      in (split, direction))"

definition penalty_step :: "string \<Rightarrow> int \<Rightarrow> penalty_state \<Rightarrow> string \<Rightarrow> penalty_state" where
  "penalty_step varname ndim st line =
     (case st of (printed, ineqconstraints, eqconstraints) \<Rightarrow>
      if strip line \<noteq> [] then
        (let constraint = penalty_aliases (strip (index_vars varname ndim line));
             (split, direction) = penalty_split constraint;
             printed' = (if length split = 1
                         then printed @ [''Invalid constraint:  '' @ constraint] else printed);
             (lhs, rhs) = eqn split;
             expression = lhs @ '' - ('' @ rhs @ '')''
         in if direction = ''='' then (printed', ineqconstraints, eqconstraints @ [expression])
            else if direction = ''<'' then (printed', ineqconstraints @ [expression], eqconstraints)
            else (printed', ineqconstraints @ [''-('' @ expression @ '')''], eqconstraints))
      else st)"

definition penalty_parser ::
  "string \<Rightarrow> varspec \<Rightarrow> int option \<Rightarrow> error + penalty_state" where
  "penalty_parser constraints variables nvars =
     bind (parser_head constraints variables nvars) (\<lambda>(constraints', varname, ndim).
       Inr (foldl (penalty_step varname ndim) ([], [], []) (splitlines constraints')))"

definition solver_aliases :: "string \<Rightarrow> string" where
  "solver_aliases c0 =
     (let c1 = (if contains c0 ''ptp('' then replace c0 ''ptp('' ''spread('' else c0);
          c2 = (if contains c1 ''average('' then replace c1 ''average('' ''mean('' else c1);
          c3 = (if contains c2 ''var('' then replace c2 ''var('' ''variance('' else c2);
          c4 = (if contains c3 ''prod('' then replace c3 ''prod('' ''product('' else c3)
      in c4)"

text \<open>The three templates \<open>expression\<close> of \<open>constraints_parser\<close>, as functions of lhs and rhs.\<close>

definition expr_max :: "string \<Rightarrow> string \<Rightarrow> string" where
  "expr_max lhs rhs = lhs @ '' = max('' @ rhs @ '', '' @ lhs @ '')''"

definition expr_min :: "string \<Rightarrow> string \<Rightarrow> string" where
  "expr_min lhs rhs = lhs @ '' = min('' @ rhs @ '', '' @ lhs @ '')''"

definition expr_eq :: "string \<Rightarrow> string \<Rightarrow> string" where
  "expr_eq lhs rhs = lhs @ '' = '' @ rhs"

definition solver_split :: "string \<Rightarrow> string list \<times> (string \<Rightarrow> string \<Rightarrow> string)" where
  "solver_split constraint =
     (let split = py_split constraint ''>''; expression = expr_max;
          (split, expression) =
             (if length split = 1 then (py_split constraint ''<'', expr_min) else (split, expression));
          (split, expression) =
             (if length split = 1 then (py_split constraint ''='', expr_eq) else (split, expression))
      in (split, expression))"

text \<open>One of the five \<open>impose_*\<close> rewrites of the left-hand side.\<close>

definition impose :: "string \<Rightarrow> string \<times> string \<Rightarrow> string \<times> string" where
  "impose name lr =
     (case lr of (lhs, rhs) \<Rightarrow>
      if contains lhs (name @ ''('') then
        (let lhs' = last (py_split lhs name)
         in (lhs', '' impose_'' @ name @ ''( ('' @ dropWhile is_space rhs @ ''),'' @ lhs' @ '')''))
      else (lhs, rhs))"

text \<open>
  The end of the loop body of \<open>constraints_parser\<close>: \<open>lhs,rhs = expression.split('=')\<close>
  raises ValueError unless there are exactly two pieces; then the five rewrites
  and the join.
\<close>

definition impose_all :: "string \<Rightarrow> error + string" where
  "impose_all expression =
     (case py_split expression ''='' of
        [lhs0, rhs0] \<Rightarrow>
          (let (lhs1, rhs1) =
                 impose ''product'' (impose ''sum'' (impose ''variance''
                   (impose ''mean'' (impose ''spread'' (lhs0, rhs0)))))
           in Inr (join ''='' [lhs1, rhs1]))
      | _ \<Rightarrow> Inl ValueError)"

type_synonym solver_state = "string list \<times> string list"

definition constraints_step ::
  "string \<Rightarrow> int \<Rightarrow> solver_state \<Rightarrow> string \<Rightarrow> error + solver_state" where
  "constraints_step varname ndim st line =
     (case st of (printed, parsed) \<Rightarrow>
      if strip line \<noteq> [] then
        (let constraint = solver_aliases (strip (index_vars varname ndim line));
             (split, expression) = solver_split constraint;
             printed' = (if length split = 1
                         then printed @ [''Invalid constraint:  '' @ constraint] else printed);
             (lhs, rhs) = eqn split
         in bind (impose_all (expression lhs rhs))
              (\<lambda>expression'. Inr (printed', parsed @ [expression'])))
      else Inr st)"

fun fold_err :: "('s \<Rightarrow> 'a \<Rightarrow> error + 's) \<Rightarrow> 's \<Rightarrow> 'a list \<Rightarrow> error + 's" where
  "fold_err f s [] = Inr s"
| "fold_err f s (x # xs) = bind (f s x) (\<lambda>s'. fold_err f s' xs)"

definition constraints_parser ::
  "string \<Rightarrow> varspec \<Rightarrow> int option \<Rightarrow> error + solver_state" where
  "constraints_parser constraints variables nvars =
     bind (parser_head constraints variables nvars) (\<lambda>(constraints', varname, ndim).
       fold_err (constraints_step varname ndim) ([], []) (splitlines constraints'))"

section \<open>Numbers and the matrix-to-text bridge\<close>

text \<open>
  A Python number is an \<open>int\<close> or a \<open>float\<close>. A float is held by its exact
  value: the embedding follows float arithmetic where it is exact (halving,
  maxima, sums of small integers, as in the scenarios of the module's
  docstrings) and does not model rounding. \<open>str\<close> of a float is given for
  integral values below \<open>10^12\<close>, which print as \<open>3.0\<close>.
\<close>

datatype pyval = PyInt int | PyFloat rat

fun num_val :: "pyval \<Rightarrow> rat" where
  "num_val (PyInt i) = of_int i"
| "num_val (PyFloat q) = q"

definition str_val :: "pyval \<Rightarrow> error + string" where
  "str_val v =
     (case v of
        PyInt i \<Rightarrow> Inr (str_int i)
      | PyFloat q \<Rightarrow>
          if q = of_int (floor q) \<and> \<bar>q\<bar> < 10 ^ 12
          then Inr (str_int (floor q) @ ''.0'') else Inl Unmodelled)"

text \<open>
  A matrix argument is a list of rows or, one-dimensional, a bare list of
  numbers (\<open>len(A[0])\<close> then fails and the code wraps it: \<open>A = [A]\<close>).
\<close>

datatype mat = Rows "pyval list list" | Flat "pyval list"

text \<open>\<open>try: ndim = len(A[0]) except: ndim = len(A); A = [A]\<close>.\<close>

definition add_layer :: "mat \<Rightarrow> nat \<times> pyval list list" where
  "add_layer A =
     (case A of
        Rows (r # rs) \<Rightarrow> (length r, r # rs)
      | Rows [] \<Rightarrow> (0, [[]])
      | Flat xs \<Rightarrow> (length xs, [xs]))"

text \<open>
  \<open>if len(b) == 1: b = list(ndarray.flatten(asarray(b)))\<close>; a right-hand side
  that stays nested would print its rows as lists, which is not modelled.
\<close>

definition flatten_rhs :: "mat \<Rightarrow> error + pyval list" where
  "flatten_rhs b =
     (case b of
        Flat xs \<Rightarrow> Inr xs
      | Rows [r] \<Rightarrow> Inr r
      | Rows rs \<Rightarrow> if rs = [] then Inr [] else Inl Unmodelled)"

text \<open>The inner loop: \<open>Asum += str(A[i][j]) + '*x' + str(j) + ' + '\<close> for \<open>j\<close> in \<open>range(ndim)\<close>.\<close>

fun row_text :: "pyval list \<Rightarrow> nat list \<Rightarrow> string \<Rightarrow> error + string" where
  "row_text row [] Asum = Inr Asum"
| "row_text row (j # js) Asum =
     bind (nth_err row j) (\<lambda>a. bind (str_val a) (\<lambda>sa.
       row_text row js (Asum @ sa @ ''*x'' @ str_nat j @ '' + '')))"

text \<open>
  The outer loop over \<open>range(len(b))\<close>; \<open>rel\<close> is \<open>' = '\<close> in the equality block
  and \<open>' <= '\<close> in the inequality block, which are otherwise the same code.
\<close>

fun rows_text ::
  "string \<Rightarrow> pyval list list \<Rightarrow> pyval list \<Rightarrow> nat \<Rightarrow> nat list \<Rightarrow> string \<Rightarrow> error + string" where
  "rows_text rel A b ndim [] acc = Inr acc"
| "rows_text rel A b ndim (i # is) acc =
     bind (nth_err A i) (\<lambda>row. bind (row_text row [0..<ndim] []) (\<lambda>Asum.
     bind (nth_err b i) (\<lambda>bi. bind (str_val bi) (\<lambda>sb.
       rows_text rel A b ndim is
         (acc @ rstrip_chars '' + '' Asum @ rel @ sb @ [CHR 0x0A])))))"

definition block_text :: "string \<Rightarrow> string \<Rightarrow> mat \<Rightarrow> mat \<Rightarrow> error + string" where
  "block_text rel message A b =
     (case add_layer A of (ndim, A') \<Rightarrow>
      bind (flatten_rhs b) (\<lambda>b'.
        if length A' \<noteq> length b' then Inl (DimensionError message)
        else rows_text rel A' b' ndim [0..<length b'] []))"

definition linear_symbolic ::
  "mat option \<Rightarrow> mat option \<Rightarrow> mat option \<Rightarrow> mat option \<Rightarrow> error + string" where
  "linear_symbolic A b G h =
     bind (case (A, b) of
             (Some A', Some b') \<Rightarrow>
               block_text '' = '' ''Dimensions of A and b are not consistent.'' A' b'
           | _ \<Rightarrow> Inr []) (\<lambda>eqstring.
     bind (case (G, h) of
             (Some G', Some h') \<Rightarrow>
               block_text '' <= '' ''Dimensions of G and h are not consistent.'' G' h'
           | _ \<Rightarrow> Inr []) (\<lambda>ineqstring.
     Inr (ineqstring @ eqstring)))"

section \<open>The expressions run by the compiled functions\<close>

text \<open>
  The compiled functions hand their expression text to Python's \<open>eval\<close> and
  \<open>exec\<close> at every call. The embedding interprets a subset of that text:
  numbers, names, \<open>x[i]\<close>, calls, unary and binary \<open>+ - * /\<close>, parentheses, and
  the assignment \<open>x[i] = expression\<close>. Text outside the subset gives
  \<open>Unmodelled\<close>, never a Python exception; an integer literal with a leading
  zero (octal in Python 2) is outside the subset.
\<close>

datatype token = TNum pyval | TName string | TSym char

datatype lexstate = LIdle | LInt string | LFrac string string | LName string

definition nat_of_digits :: "string \<Rightarrow> nat" where
  "nat_of_digits ds = foldl (\<lambda>a c. 10 * a + digit_val c) 0 ds"

definition is_name_char :: "char \<Rightarrow> bool" where
  "is_name_char c =
     (c \<in> set ''abcdefghijklmnopqrstuvwxyzABCDEFGHIJKLMNOPQRSTUVWXYZ_'')"

text \<open>The token that a finished run of characters makes; the runs are kept reversed.\<close>

fun flush :: "lexstate \<Rightarrow> token list" where
  "flush LIdle = []"
| "flush (LInt ds) = [TNum (PyInt (int (nat_of_digits (rev ds))))]"
| "flush (LFrac ds fs) =
     [TNum (PyFloat (of_nat (nat_of_digits (rev ds))
                     + of_nat (nat_of_digits (rev fs)) / 10 ^ length fs))]"
| "flush (LName cs) = [TName (rev cs)]"

fun lex_go :: "lexstate \<Rightarrow> string \<Rightarrow> token list option" where
  "lex_go st [] = Some (flush st)"
| "lex_go st (c # cs) =
     (if is_digit c then
        (case st of
           LIdle \<Rightarrow> lex_go (LInt [c]) cs
         | LInt ds \<Rightarrow> if ds = ''0'' then None else lex_go (LInt (c # ds)) cs
         | LFrac ds fs \<Rightarrow> lex_go (LFrac ds (c # fs)) cs
         | LName n \<Rightarrow> lex_go (LName (c # n)) cs)
      else if c = CHR ''.'' then
        (case st of LInt ds \<Rightarrow> lex_go (LFrac ds []) cs | _ \<Rightarrow> None)
      else if is_name_char c then
        (case st of
           LIdle \<Rightarrow> lex_go (LName [c]) cs
         | LName n \<Rightarrow> lex_go (LName (c # n)) cs
         | _ \<Rightarrow> None)
      else if c = CHR '' '' then map_option (\<lambda>ts. flush st @ ts) (lex_go LIdle cs)
      else if c \<in> set ''+-*/()[],='' then
        map_option (\<lambda>ts. flush st @ TSym c # ts) (lex_go LIdle cs)
      else None)"

datatype expr =
    Num pyval | Var string | Idx string expr | Call string "expr list"
  | Neg expr | Bin char expr expr

text \<open>
  A recursive-descent parser, written as one function whose second argument says
  which rule is being read (and, for the rules that extend a left operand or an
  argument list, carries what was read so far). Every call spends one unit of
  \<open>n\<close>, so the function is total; the parser is started with more units than a
  run on the token list can spend, and running out reads as a failure to parse.
\<close>

datatype rule =
    RExpr | RSumRest expr | RTerm | RTermRest expr | RFactor | RAtom
  | RArgs string "expr list"

primrec parse :: "nat \<Rightarrow> rule \<Rightarrow> token list \<Rightarrow> (expr \<times> token list) option" where
  "parse 0 rl ts = None"
| "parse (Suc n) rl ts =
     (case rl of
        RExpr \<Rightarrow>
          (case parse n RTerm ts of None \<Rightarrow> None | Some (e, r) \<Rightarrow> parse n (RSumRest e) r)
      | RSumRest e \<Rightarrow>
          (case ts of
             TSym c # r \<Rightarrow>
               if c = CHR ''+'' \<or> c = CHR ''-'' then
                 (case parse n RTerm r of
                    None \<Rightarrow> None
                  | Some (e2, r2) \<Rightarrow> parse n (RSumRest (Bin c e e2)) r2)
               else Some (e, ts)
           | _ \<Rightarrow> Some (e, ts))
      | RTerm \<Rightarrow>
          (case parse n RFactor ts of None \<Rightarrow> None | Some (e, r) \<Rightarrow> parse n (RTermRest e) r)
      | RTermRest e \<Rightarrow>
          (case ts of
             TSym c # r \<Rightarrow>
               if c = CHR ''*'' \<or> c = CHR ''/'' then
                 (case parse n RFactor r of
                    None \<Rightarrow> None
                  | Some (e2, r2) \<Rightarrow> parse n (RTermRest (Bin c e e2)) r2)
               else Some (e, ts)
           | _ \<Rightarrow> Some (e, ts))
      | RFactor \<Rightarrow>
          (case ts of
             TSym c # r \<Rightarrow>
               if c = CHR ''-'' then
                 (case parse n RFactor r of None \<Rightarrow> None | Some (e, r2) \<Rightarrow> Some (Neg e, r2))
               else if c = CHR ''+'' then parse n RFactor r
               else parse n RAtom ts
           | _ \<Rightarrow> parse n RAtom ts)
      | RAtom \<Rightarrow>
          (case ts of
             [] \<Rightarrow> None
           | TNum v # r \<Rightarrow> Some (Num v, r)
           | TName f # r \<Rightarrow>
               (case r of
                  TSym c # r' \<Rightarrow>
                    if c = CHR ''('' then parse n (RArgs f []) r'
                    else if c = CHR ''['' then
                      (case parse n RExpr r' of
                         None \<Rightarrow> None
                       | Some (e, r2) \<Rightarrow>
                           (case r2 of
                              TSym d # r3 \<Rightarrow> if d = CHR '']'' then Some (Idx f e, r3) else None
                            | _ \<Rightarrow> None))
                    else Some (Var f, r)
                | _ \<Rightarrow> Some (Var f, r))
           | TSym c # r \<Rightarrow>
               if c = CHR ''('' then
                 (case parse n RExpr r of
                    None \<Rightarrow> None
                  | Some (e, r2) \<Rightarrow>
                      (case r2 of
                         TSym d # r3 \<Rightarrow> if d = CHR '')'' then Some (e, r3) else None
                       | _ \<Rightarrow> None))
               else None)
      | RArgs f acc \<Rightarrow>
          (if acc = [] \<and> (case ts of TSym c # r \<Rightarrow> c = CHR '')'' | _ \<Rightarrow> False)
           then Some (Call f [], tl ts)
           else
             (case parse n RExpr ts of
                None \<Rightarrow> None
              | Some (a, r2) \<Rightarrow>
                  (case r2 of
                     TSym d # r3 \<Rightarrow>
                       if d = CHR '','' then parse n (RArgs f (a # acc)) r3
                       else if d = CHR '')'' then Some (Call f (rev (a # acc)), r3)
                       else None
                   | _ \<Rightarrow> None))))"

definition parse_tokens :: "token list \<Rightarrow> expr option" where
  "parse_tokens ts =
     (case parse (8 * length ts + 8) RExpr ts of
        None \<Rightarrow> None
      | Some (e, r) \<Rightarrow> if r = [] then Some e else None)"

text \<open>Arithmetic on numbers; \<open>int / int\<close> is left out of the subset.\<close>

definition arith :: "char \<Rightarrow> pyval \<Rightarrow> pyval \<Rightarrow> error + pyval" where
  "arith op a b =
     (if op = CHR ''/'' then
        (case (a, b) of
           (PyInt i, PyInt j) \<Rightarrow> Inl Unmodelled
         | _ \<Rightarrow> if num_val b = 0 then Inl ZeroDivisionError
                else Inr (PyFloat (num_val a / num_val b)))
      else
        (case (a, b) of
           (PyInt i, PyInt j) \<Rightarrow>
             Inr (PyInt (if op = CHR ''+'' then i + j else if op = CHR ''-'' then i - j else i * j))
         | _ \<Rightarrow>
             Inr (PyFloat (if op = CHR ''+'' then num_val a + num_val b
                          else if op = CHR ''-'' then num_val a - num_val b
                          else num_val a * num_val b))))"

definition negate :: "pyval \<Rightarrow> pyval" where
  "negate a = (case a of PyInt i \<Rightarrow> PyInt (- i) | PyFloat q \<Rightarrow> PyFloat (- q))"

text \<open>
  The namespace in which the expressions run: what the import statements and
  the caller's \<open>locals\<close> bind. A name is bound to a number or to a function on
  numbers; a name it does not bind raises NameError. The namespace is an
  argument of the builders, since the libraries that fill it are not part of
  the module.
\<close>

datatype binding = Const pyval | Fn "pyval list \<Rightarrow> error + pyval"

type_synonym namespace = "string \<Rightarrow> binding option"

text \<open>\<open>x[i]\<close> on a list: an int index, negative from the end.\<close>

definition list_index :: "pyval list \<Rightarrow> pyval \<Rightarrow> error + nat" where
  "list_index xs i =
     (case i of
        PyFloat q \<Rightarrow> Inl TypeError
      | PyInt k \<Rightarrow>
          (let n = int (length xs); j = (if k < 0 then n + k else k)
           in if 0 \<le> j \<and> j < n then Inr (nat j) else Inl IndexError))"

fun eval_expr :: "namespace \<Rightarrow> pyval list \<Rightarrow> expr \<Rightarrow> error + pyval"
and eval_args :: "namespace \<Rightarrow> pyval list \<Rightarrow> expr list \<Rightarrow> error + pyval list"
where
  "eval_expr ns x (Num v) = Inr v"
| "eval_expr ns x (Var n) =
     (if n = ''x'' then Inl Unmodelled
      else case ns n of
             None \<Rightarrow> Inl NameError
           | Some (Const v) \<Rightarrow> Inr v
           | Some (Fn f) \<Rightarrow> Inl Unmodelled)"
| "eval_expr ns x (Idx n e) =
     (if n = ''x'' then
        bind (eval_expr ns x e) (\<lambda>i. bind (list_index x i) (\<lambda>j. Inr (x ! j)))
      else case ns n of None \<Rightarrow> Inl NameError | Some b \<Rightarrow> Inl Unmodelled)"
| "eval_expr ns x (Call f args) =
     (if f = ''x'' then bind (eval_args ns x args) (\<lambda>vs. Inl TypeError)
      else case ns f of
             None \<Rightarrow> Inl NameError
           | Some (Const v) \<Rightarrow> bind (eval_args ns x args) (\<lambda>vs. Inl TypeError)
           | Some (Fn g) \<Rightarrow> bind (eval_args ns x args) g)"
| "eval_expr ns x (Neg e) = bind (eval_expr ns x e) (\<lambda>v. Inr (negate v))"
| "eval_expr ns x (Bin op a b) =
     bind (eval_expr ns x a) (\<lambda>va. bind (eval_expr ns x b) (\<lambda>vb. arith op va vb))"
| "eval_args ns x [] = Inr []"
| "eval_args ns x (e # es) =
     bind (eval_expr ns x e) (\<lambda>v. bind (eval_args ns x es) (\<lambda>vs. Inr (v # vs)))"

text \<open>\<open>eval(text)\<close> with \<open>x\<close> bound to the point.\<close>

definition py_eval :: "namespace \<Rightarrow> string \<Rightarrow> pyval list \<Rightarrow> error + pyval" where
  "py_eval ns text x =
     (case lex_go LIdle text of
        None \<Rightarrow> Inl Unmodelled
      | Some ts \<Rightarrow>
          (case parse_tokens ts of
             None \<Rightarrow> Inl Unmodelled
           | Some e \<Rightarrow> eval_expr ns x e))"

text \<open>
  Objects live in a store: an address holds a list, and a function that is
  handed an address works on the list the caller holds. \<open>exec(text)\<close> with
  \<open>x\<close> bound to the address \<open>p\<close> runs \<open>x[i] = expression\<close>: the right-hand side
  first, then the index, then the store into the list at \<open>p\<close>.
\<close>

type_synonym store = "nat \<Rightarrow> pyval list"

definition split_assign :: "token list \<Rightarrow> (token list \<times> token list) option" where
  "split_assign ts =
     (let l = takeWhile (\<lambda>t. t \<noteq> TSym (CHR ''='')) ts;
          r = drop (length l) ts
      in case r of
           [] \<Rightarrow> None
         | e # rhs \<Rightarrow> if TSym (CHR ''='') \<in> set rhs then None else Some (l, rhs))"

definition py_exec :: "namespace \<Rightarrow> string \<Rightarrow> nat \<Rightarrow> store \<Rightarrow> error + store" where
  "py_exec ns text p st =
     (case lex_go LIdle text of
        None \<Rightarrow> Inl Unmodelled
      | Some ts \<Rightarrow>
          (case split_assign ts of
             None \<Rightarrow> Inl Unmodelled
           | Some (l, r) \<Rightarrow>
               (case (parse_tokens l, parse_tokens r) of
                  (Some (Idx n ie), Some e) \<Rightarrow>
                    if n = ''x'' then
                      bind (eval_expr ns (st p) e) (\<lambda>v.
                      bind (eval_expr ns (st p) ie) (\<lambda>i.
                      bind (list_index (st p) i) (\<lambda>j.
                        Inr (st (p := (st p)[j := v])))))
                    else Inl Unmodelled
                | _ \<Rightarrow> Inl Unmodelled)))"

text \<open>The builtins \<open>max\<close>, \<open>min\<close> and \<open>abs\<close>: the first greatest (least) argument wins.\<close>

definition py_max :: "pyval list \<Rightarrow> error + pyval" where
  "py_max vs =
     (case vs of
        a # b # rest \<Rightarrow> Inr (foldl (\<lambda>m v. if num_val m < num_val v then v else m) a (b # rest))
      | _ \<Rightarrow> Inl TypeError)"

definition py_min :: "pyval list \<Rightarrow> error + pyval" where
  "py_min vs =
     (case vs of
        a # b # rest \<Rightarrow> Inr (foldl (\<lambda>m v. if num_val v < num_val m then v else m) a (b # rest))
      | _ \<Rightarrow> Inl TypeError)"

definition py_abs :: "pyval list \<Rightarrow> error + pyval" where
  "py_abs vs =
     (case vs of
        [PyInt i] \<Rightarrow> Inr (PyInt \<bar>i\<bar>)
      | [PyFloat q] \<Rightarrow> Inr (PyFloat \<bar>q\<bar>)
      | _ \<Rightarrow> Inl TypeError)"

text \<open>
  The part of the namespace that the scenarios use. No import of the module
  binds the name \<open>y\<close>.
\<close>

definition builtins :: namespace where
  "builtins n =
     (if n = ''max'' then Some (Fn py_max)
      else if n = ''min'' then Some (Fn py_min)
      else if n = ''abs'' then Some (Fn py_abs)
      else None)"

section \<open>Building the condition and solver functions\<close>

text \<open>
  \<open>generate_solvers\<close> and \<open>generate_conditions\<close> paste each expression between
  quotes into the source of a function and compile that source. The paste is
  modelled for text of printable characters without quote or backslash, where
  the quoted literal denotes the text itself; other text gives \<open>Unmodelled\<close>.
\<close>

definition plain_text :: "string \<Rightarrow> bool" where
  "plain_text t =
     list_all (\<lambda>c. c \<noteq> CHR 0x27 \<and> c \<noteq> CHR 0x5C \<and> 32 \<le> (of_char c :: nat) \<and> (of_char c :: nat) < 127) t"

text \<open>
  A solver function: its docstring, its \<open>__name__\<close> and what a call does. A call
  gets the address of the point and the store, and returns the address it
  returns with the store it leaves.
\<close>

type_synonym scall = "nat \<Rightarrow> store \<Rightarrow> error + nat \<times> store"

record solver =
  sdoc :: string
  sname :: string
  scall :: scall

text \<open>
  \<open>def solver_ID(x): exec('equation'); return x\<close>: the text is run at each call,
  on the object that was passed, and that object is returned.
\<close>

definition build_solver :: "namespace \<Rightarrow> string \<Rightarrow> error + solver" where
  "build_solver ns equation =
     (if plain_text equation then
        Inr \<lparr> sdoc = equation, sname = ''solver'',
              scall = (\<lambda>p st. bind (py_exec ns equation p st) (\<lambda>st'. Inr (p, st'))) \<rparr>
      else Inl Unmodelled)"

definition generate_solvers ::
  "string \<Rightarrow> varspec \<Rightarrow> int option \<Rightarrow> namespace \<Rightarrow> error + string list \<times> solver list" where
  "generate_solvers constraints variables nvars ns =
     bind (constraints_parser constraints variables nvars) (\<lambda>(printed, parsed).
     bind (map_err (build_solver ns) parsed) (\<lambda>results.
       Inr (printed, results)))"

text \<open>A condition function: its docstring, its \<open>__name__\<close> (the tag) and its value at a point.\<close>

type_synonym ccall = "pyval list \<Rightarrow> error + pyval"

record condition =
  cdoc :: string
  cname :: string
  ccall :: ccall

text \<open>\<open>def container_ID(x): return eval('equation')\<close>, named after its container.\<close>

definition build_condition :: "namespace \<Rightarrow> string \<Rightarrow> string \<Rightarrow> error + condition" where
  "build_condition ns container equation =
     (if plain_text equation then
        Inr \<lparr> cdoc = equation, cname = container, ccall = py_eval ns equation \<rparr>
      else Inl Unmodelled)"

text \<open>
  The equality conditions are built first, then the inequality conditions; the
  result is the pair (inequality, equality).
\<close>

definition generate_conditions ::
  "string \<Rightarrow> varspec \<Rightarrow> int option \<Rightarrow> namespace
     \<Rightarrow> error + string list \<times> condition list \<times> condition list" where
  "generate_conditions constraints variables nvars ns =
     bind (penalty_parser constraints variables nvars)
       (\<lambda>(printed, ineqconstraints, eqconstraints).
     bind (map_err (build_condition ns ''equality'') eqconstraints) (\<lambda>equality.
     bind (map_err (build_condition ns ''inequality'') ineqconstraints) (\<lambda>inequality.
       Inr (printed, inequality, equality))))"

section \<open>Composing the functions\<close>

text \<open>
  Modelled from the spec: \<open>mystic.tools.flatten\<close> and
  \<open>list_or_tuple_or_ndarray\<close> are not among the sources. An argument is one
  item or a (nested) sequence; flattening lists its items from left to right.
\<close>

datatype 'a nested = Item 'a | Seq "'a nested list"

fun flatten :: "'a nested \<Rightarrow> 'a list" where
  "flatten (Item a) = [a]"
| "flatten (Seq xs) = concat (map flatten xs)"

text \<open>
  A constraint kind: \<open>kind(solver)\<close> is a decorator, \<open>kind(solver)(cf)\<close> the new
  accumulated function.
\<close>

record ckind =
  kname :: string
  kwrap :: "scall \<Rightarrow> scall \<Rightarrow> scall"

text \<open>
  Modelled from the spec: \<open>mystic.coupler.inner\<close> is not among the sources. The
  spec gives its contract (\<open>kind(solver)(accumulator)\<close> is the new accumulator)
  and calls it the sequential composition. Which of the two runs first is fixed
  by the examples in the docstring of \<open>generate_constraint\<close>
  (\<open>constraint([-1,2,-3])\<close> is \<open>[0.0, 2, 0.0]\<close>, and \<open>[1.0, 0.0, 1.0]\<close> goes to
  \<open>[1.5838531634528576, 2.0, 1.0]\<close>), which hold only if the solver is the
  inner function: the accumulated function runs on what the new solver returns.
\<close>

definition inner :: ckind where
  "inner = \<lparr> kname = ''inner'',
             kwrap = (\<lambda>f cf p st. bind (f p st) (\<lambda>(p', st'). cf p' st')) \<rparr>"

text \<open>The body of the loop of \<open>generate_constraint\<close>, on the pair of \<open>cf\<close> and \<open>cfdoc\<close>.\<close>

definition cstep :: "scall \<times> string \<Rightarrow> ckind \<times> solver \<Rightarrow> scall \<times> string" where
  "cstep = (\<lambda>(cf, cfdoc) (wrapper, condition).
              (kwrap wrapper (scall condition) cf,
               cfdoc @ kname wrapper @ '': '' @ sdoc condition @ [CHR 0x0A]))"

definition generate_constraint :: "solver nested \<Rightarrow> ckind nested option \<Rightarrow> solver" where
  "generate_constraint conditions0 ctype0 =
     (let conditions = flatten conditions0;
          ctype = (case ctype0 of
                     None \<Rightarrow> replicate (length conditions) inner
                   | Some (Item k) \<Rightarrow> replicate (length conditions) k
                   | Some (Seq ks) \<Rightarrow> flatten (Seq ks));
          (cf, cfdoc) = foldl cstep ((\<lambda>p st. Inr (p, st)), []) (zip ctype conditions)
      in \<lparr> sdoc = rstrip_chars [CHR 0x0A] cfdoc, sname = ''constraint'', scall = cf \<rparr>)"

section \<open>Notions used to state the properties\<close>

text \<open>
  The text before the first and after the last occurrence of an operator
  character, and the signed expression \<open>lhs - (rhs)\<close> around it, written from
  the description of the penalty expression rather than from the code.
\<close>

definition before_first :: "char \<Rightarrow> string \<Rightarrow> string" where
  "before_first ch s = takeWhile (\<lambda>d. d \<noteq> ch) s"

definition after_last :: "char \<Rightarrow> string \<Rightarrow> string" where
  "after_last ch s = rev (takeWhile (\<lambda>d. d \<noteq> ch) (rev s))"

definition lhs_at :: "char \<Rightarrow> string \<Rightarrow> string" where
  "lhs_at ch c = strip (rstrip_chars ''='' (before_first ch c))"

definition rhs_at :: "char \<Rightarrow> string \<Rightarrow> string" where
  "rhs_at ch c = strip (lstrip_chars ''='' (after_last ch c))"

definition penalty_form :: "char \<Rightarrow> string \<Rightarrow> string" where
  "penalty_form ch c = lhs_at ch c @ '' - ('' @ rhs_at ch c @ '')''"

definition is_relop :: "char \<Rightarrow> bool" where
  "is_relop c = (c \<in> set ''<>='')"

text \<open>
  A call on a fresh object: the point is put at address 0 of a store, and the
  list at the returned address is read back.
\<close>

definition run :: "scall \<Rightarrow> pyval list \<Rightarrow> error + pyval list" where
  "run f xs = bind (f 0 (\<lambda>a. xs)) (\<lambda>(p, st). Inr (st p))"

text \<open>The calls of a list made one after the other, the first of the list first.\<close>

fun apply_seq :: "scall list \<Rightarrow> scall" where
  "apply_seq [] p st = Inr (p, st)"
| "apply_seq (f # fs) p st = bind (f p st) (\<lambda>(p', st'). apply_seq fs p' st')"


text \<open>
  A constraint text seen as a sequence of pieces: a reference to the name at a
  position of the variable list, or one character of other text. \<open>render\<close>
  writes the text with a given name for each position.
\<close>

datatype piece = Ref nat | Lit char

fun piece_text :: "(nat \<Rightarrow> string) \<Rightarrow> piece \<Rightarrow> string" where
  "piece_text name (Ref i) = name i"
| "piece_text name (Lit c) = [c]"

definition render :: "(nat \<Rightarrow> string) \<Rightarrow> piece list \<Rightarrow> string" where
  "render name ps = concat (map (piece_text name) ps)"

fun refs :: "piece list \<Rightarrow> nat list" where
  "refs [] = []"
| "refs (Ref i # ps) = i # refs ps"
| "refs (Lit c # ps) = refs ps"

fun separated :: "piece list \<Rightarrow> bool" where
  "separated [] = True"
| "separated (Lit c # ps) = separated ps"
| "separated [Ref i] = True"
| "separated (Ref i # Ref j # ps) = False"
| "separated (Ref i # Lit c # ps) = (\<not> is_digit c \<and> separated ps)"

text \<open>
  A text in which renaming cannot go wrong: the names are distinct, non-empty
  and hold no digit and no character of the marker; the marker is a literal
  without line breaks; the other text holds no character of a name or of the
  marker; two references never touch, and no digit follows a reference.
\<close>

definition well_formed :: "string list \<Rightarrow> string \<Rightarrow> piece list \<Rightarrow> bool" where
  "well_formed V m ps =
     (distinct V \<and> m \<noteq> [] \<and> re_literal m \<and> CHR 0x0A \<notin> set m \<and> CHR 0x0D \<notin> set m \<and>
      list_all (\<lambda>v. v \<noteq> [] \<and> list_all (\<lambda>c. \<not> is_digit c \<and> c \<notin> set m) v) V \<and>
      list_all (\<lambda>p. case p of Ref i \<Rightarrow> i < length V
                             | Lit c \<Rightarrow> c \<notin> set m \<and> list_all (\<lambda>v. c \<notin> set v) V) ps \<and>
      separated ps)"

section \<open>Properties\<close>

subsection \<open>Splitting at a single character\<close>

lemma split_go_nonempty: "split_go sep cur s \<noteq> []"
  by (induction sep cur s rule: split_go.induct) auto

lemma split_go_single_one: "(length (split_go [c] cur s) = 1) = (c \<notin> set s)"
  by (induction s arbitrary: cur) (auto simp: split_go_nonempty)

lemma split_go_single_hd: "hd (split_go [c] cur s) = rev cur @ takeWhile (\<lambda>d. d \<noteq> c) s"
  by (induction s arbitrary: cur) auto

lemma takeWhile_neq_snoc: "c \<notin> set xs \<Longrightarrow> takeWhile (\<lambda>d. d \<noteq> c) (xs @ [c]) = xs"
  by (induction xs) auto

lemma takeWhile_neq_snoc_other:
  "d \<noteq> c \<Longrightarrow> takeWhile (\<lambda>d. d \<noteq> c) (xs @ [d]) =
     (if c \<in> set xs then takeWhile (\<lambda>d. d \<noteq> c) xs else xs @ [d])"
  by (induction xs) auto

lemma split_go_single_last:
  "last (split_go [c] cur s) =
     (if c \<in> set s then rev (takeWhile (\<lambda>d. d \<noteq> c) (rev s)) else rev cur @ s)"
proof (induction s arbitrary: cur)
  case Nil
  then show ?case by simp
next
  case (Cons d ds)
  show ?case
  proof (cases "d = c")
    case True
    have "last (split_go [c] cur (d # ds)) = last (split_go [c] [] ds)"
      using True by (simp add: split_go_nonempty)
    also have "\<dots> = (if c \<in> set ds then rev (takeWhile (\<lambda>d. d \<noteq> c) (rev ds)) else ds)"
      by (simp add: Cons.IH)
    also have "\<dots> = rev (takeWhile (\<lambda>d. d \<noteq> c) (rev (d # ds)))"
      using True by (auto simp: takeWhile_neq_snoc)
    finally show ?thesis using True by simp
  next
    case False
    then show ?thesis
      by (auto simp: Cons.IH takeWhile_neq_snoc_other)
  qed
qed

lemma py_split_single_one: "(length (py_split s [ch]) = 1) = (ch \<notin> set s)"
  using split_go_single_one[of ch "[]" s] by (simp add: py_split_def)

lemma eqn_single:
  "ch \<in> set s \<Longrightarrow> eqn (py_split s [ch]) = (lhs_at ch s, rhs_at ch s)"
  by (simp add: eqn_def py_split_def split_go_single_hd split_go_single_last
      lhs_at_def rhs_at_def before_first_def after_last_def)

lemma takeWhile_neq_all: "ch \<notin> set s \<Longrightarrow> takeWhile (\<lambda>d. d \<noteq> ch) s = s"
  by (induction s) auto

lemma eqn_none:
  "ch \<notin> set s \<Longrightarrow> eqn (py_split s [ch]) = (strip (rstrip_chars ''='' s), strip (lstrip_chars ''='' s))"
  by (simp add: eqn_def py_split_def split_go_single_hd split_go_single_last
      takeWhile_neq_all)

subsection \<open>Characters kept by the normalisation of a line\<close>

lemma set_dropWhile_keep: "\<not> P c \<Longrightarrow> (c \<in> set (dropWhile P s)) = (c \<in> set s)"
  by (induction s) auto

lemma set_strip_keep: "\<not> is_space c \<Longrightarrow> (c \<in> set (strip s)) = (c \<in> set s)"
  unfolding strip_def by (simp add: set_dropWhile_keep)

lemma prefix_drop_eq:
  assumes "old \<noteq> []" "prefix old (c # cs)"
  shows "c # cs = old @ drop (length old - 1) cs"
proof -
  from assms(2) obtain rest where r: "c # cs = old @ rest" by (auto elim: prefixE)
  from assms(1) obtain a os where o: "old = a # os" by (cases old) auto
  from r o have "cs = os @ rest" by simp
  then show ?thesis using r o by simp
qed

lemma replace_go_match:
  "old \<noteq> [] \<Longrightarrow> prefix old (d # ds) \<Longrightarrow>
   replace_go old new (d # ds) = new @ replace_go old new (drop (length old - 1) ds)"
  by (subst replace_go.simps(2)) (simp only: simp_thms if_True)

lemma replace_go_nomatch:
  "\<not> (old \<noteq> [] \<and> prefix old (d # ds)) \<Longrightarrow>
   replace_go old new (d # ds) = d # replace_go old new ds"
  by (subst replace_go.simps(2)) (simp only: simp_thms if_False)

lemma set_replace_go_keep:
  "c \<notin> set old \<Longrightarrow> c \<notin> set new \<Longrightarrow> (c \<in> set (replace_go old new s)) = (c \<in> set s)"
proof (induction old new s rule: replace_go.induct)
  case (1 old new)
  show ?case by (simp only: replace_go.simps)
next
  case (2 old new d ds)
  show ?case
  proof (cases "old \<noteq> [] \<and> prefix old (d # ds)")
    case True
    define R where "R = drop (length old - 1) ds"
    have eq: "d # ds = old @ R"
      unfolding R_def by (rule prefix_drop_eq) (use True in simp_all)
    have ih: "(c \<in> set (replace_go old new R)) = (c \<in> set R)"
      unfolding R_def by (rule "2.IH"(1)[OF True "2.prems"])
    have "replace_go old new (d # ds) = new @ replace_go old new R"
      unfolding R_def by (rule replace_go_match) (use True in simp_all)
    then have "(c \<in> set (replace_go old new (d # ds))) = (c \<in> set (new @ replace_go old new R))"
      by (simp only:)
    also have "\<dots> = (c \<in> set (replace_go old new R))"
      using "2.prems"(2) by simp
    also have "\<dots> = (c \<in> set R)" by (rule ih)
    also have "\<dots> = (c \<in> set (old @ R))"
      using "2.prems"(1) by simp
    also have "\<dots> = (c \<in> set (d # ds))" by (simp only: eq)
    finally show ?thesis .
  next
    case False
    have "replace_go old new (d # ds) = d # replace_go old new ds"
      using False by (rule replace_go_nomatch)
    then have "(c \<in> set (replace_go old new (d # ds))) = (c = d \<or> c \<in> set (replace_go old new ds))"
      by (simp only: set_simps insert_iff)
    also have "\<dots> = (c = d \<or> c \<in> set ds)"
      by (simp only: "2.IH"(2)[OF False "2.prems"])
    also have "\<dots> = (c \<in> set (d # ds))" by (simp only: set_simps insert_iff)
    finally show ?thesis .
  qed
qed

lemma set_replace_keep:
  "c \<notin> set old \<Longrightarrow> c \<notin> set new \<Longrightarrow> (c \<in> set (replace s old new)) = (c \<in> set s)"
  unfolding replace_def by (auto simp: set_replace_go_keep)

lemma digit_char_digit: "digit_char d \<in> set ''0123456789''"
  unfolding digit_char_def by (rule nth_mem) simp

lemma str_nat_digits: "set (str_nat n) \<subseteq> set ''0123456789''"
proof (induction n rule: str_nat.induct)
  case (1 n)
  show ?case
  proof (cases "n < 10")
    case True
    then show ?thesis using digit_char_digit[of n] by (subst str_nat.simps) simp
  next
    case False
    then show ?thesis using 1 digit_char_digit[of "n mod 10"] by (subst str_nat.simps) simp
  qed
qed

lemma relop_not_digit: "is_relop c \<Longrightarrow> c \<notin> set (str_nat n)"
  using str_nat_digits[of n] by (auto simp: is_relop_def)

lemma index_vars_keep:
  assumes "is_relop c" "c \<notin> set varname"
  shows "(c \<in> set (index_vars varname ndim line)) = (c \<in> set line)"
proof -
  have "(c \<in> set (foldl (\<lambda>fixed i. replace fixed (varname @ str_nat i) (''x['' @ str_nat i @ '']''))
            line is)) = (c \<in> set line)" for "is"
  proof (induction "is" arbitrary: line)
    case Nil
    show ?case by simp
  next
    case (Cons i "is")
    have "c \<notin> set (varname @ str_nat i)"
      using assms relop_not_digit by simp
    moreover have "c \<notin> set (''x['' @ str_nat i @ '']'')"
      using assms(1) relop_not_digit[OF assms(1), of i] by (auto simp: is_relop_def)
    ultimately have "(c \<in> set (replace line (varname @ str_nat i) (''x['' @ str_nat i @ '']'')))
        = (c \<in> set line)"
      by (rule set_replace_keep)
    then show ?case using Cons.IH by simp
  qed
  then show ?thesis unfolding index_vars_def .
qed

lemma relop_not_space: "is_relop c \<Longrightarrow> \<not> is_space c"
  by (auto simp: is_relop_def is_space_def)

lemma penalty_aliases_keep:
  assumes "is_relop c"
  shows "(c \<in> set (penalty_aliases s)) = (c \<in> set s)"
proof -
  have k: "(c \<in> set (replace t old new)) = (c \<in> set t)"
    if "set old \<inter> set ''<>='' = {}" "set new \<inter> set ''<>='' = {}" for t old new
    by (rule set_replace_keep) (use that assms in \<open>auto simp: is_relop_def\<close>)
  have k1: "(c \<in> set (replace t ''spread('' ''ptp('')) = (c \<in> set t)" for t
    by (rule k) simp_all
  have k2: "(c \<in> set (replace t ''mean('' ''average('')) = (c \<in> set t)" for t
    by (rule k) simp_all
  have k3: "(c \<in> set (replace t ''variance('' ''var('')) = (c \<in> set t)" for t
    by (rule k) simp_all
  show ?thesis
    unfolding penalty_aliases_def Let_def by (simp add: k1 k2 k3)
qed

lemma py_split_single_Suc: "(length (py_split s [ch]) = Suc 0) = (ch \<notin> set s)"
  using py_split_single_one[of s ch] by simp

lemma penalty_split_cases:
  "penalty_split c =
     (if CHR ''>'' \<in> set c then (py_split c ''>'', ''>'')
      else if CHR ''<'' \<in> set c then (py_split c ''<'', ''<'')
      else (py_split c ''='', ''=''))"
  by (simp add: penalty_split_def Let_def py_split_single_Suc)

lemma normal_keep:
  assumes "is_relop c" "c \<notin> set varname"
  shows "(c \<in> set (strip (index_vars varname ndim line))) = (c \<in> set line)"
  using assms by (simp add: set_strip_keep relop_not_space index_vars_keep)

lemma penalty_step_cases:
  fixes varname :: string and ndim :: int and line :: string
  assumes nb: "strip line \<noteq> []" and vn: "\<forall>c \<in> set varname. \<not> is_relop c"
  defines "c \<equiv> penalty_aliases (strip (index_vars varname ndim line))"
  shows "CHR ''>'' \<in> set line \<Longrightarrow>
           penalty_step varname ndim (pr, iq, eq) line =
             (pr, iq @ [''-('' @ penalty_form (CHR ''>'') c @ '')''], eq)"
    and "CHR ''>'' \<notin> set line \<Longrightarrow> CHR ''<'' \<in> set line \<Longrightarrow>
           penalty_step varname ndim (pr, iq, eq) line =
             (pr, iq @ [penalty_form (CHR ''<'') c], eq)"
    and "CHR ''>'' \<notin> set line \<Longrightarrow> CHR ''<'' \<notin> set line \<Longrightarrow> CHR ''='' \<in> set line \<Longrightarrow>
           penalty_step varname ndim (pr, iq, eq) line =
             (pr, iq, eq @ [penalty_form (CHR ''='') c])"
proof -
  have keep: "(op \<in> set c) = (op \<in> set line)" if "is_relop op" for op
  proof -
    have "op \<notin> set varname" using vn that by auto
    then show ?thesis
      unfolding c_def using that by (simp add: penalty_aliases_keep normal_keep)
  qed
  have gt: "(CHR ''>'' \<in> set c) = (CHR ''>'' \<in> set line)"
    by (rule keep) (simp add: is_relop_def)
  have lt: "(CHR ''<'' \<in> set c) = (CHR ''<'' \<in> set line)"
    by (rule keep) (simp add: is_relop_def)
  have eq: "(CHR ''='' \<in> set c) = (CHR ''='' \<in> set line)"
    by (rule keep) (simp add: is_relop_def)
  have step: "penalty_step varname ndim (pr, iq, eq) line =
      (case penalty_split c of (split, direction) \<Rightarrow>
         case eqn split of (lhs, rhs) \<Rightarrow>
         if direction = ''='' then
           (if length split = 1 then pr @ [''Invalid constraint:  '' @ c] else pr, iq,
            eq @ [lhs @ '' - ('' @ rhs @ '')''])
         else if direction = ''<'' then
           (if length split = 1 then pr @ [''Invalid constraint:  '' @ c] else pr,
            iq @ [lhs @ '' - ('' @ rhs @ '')''], eq)
         else (if length split = 1 then pr @ [''Invalid constraint:  '' @ c] else pr,
            iq @ [''-('' @ (lhs @ '' - ('' @ rhs @ '')'') @ '')''], eq))"
    unfolding c_def using nb by (simp add: penalty_step_def Let_def split: prod.splits)
  show "CHR ''>'' \<in> set line \<Longrightarrow>
           penalty_step varname ndim (pr, iq, eq) line =
             (pr, iq @ [''-('' @ penalty_form (CHR ''>'') c @ '')''], eq)"
    unfolding step using gt
    by (simp add: penalty_split_cases eqn_single py_split_single_Suc penalty_form_def)
  show "CHR ''>'' \<notin> set line \<Longrightarrow> CHR ''<'' \<in> set line \<Longrightarrow>
           penalty_step varname ndim (pr, iq, eq) line =
             (pr, iq @ [penalty_form (CHR ''<'') c], eq)"
    unfolding step using gt lt
    by (simp add: penalty_split_cases eqn_single py_split_single_Suc penalty_form_def)
  show "CHR ''>'' \<notin> set line \<Longrightarrow> CHR ''<'' \<notin> set line \<Longrightarrow> CHR ''='' \<in> set line \<Longrightarrow>
           penalty_step varname ndim (pr, iq, eq) line =
             (pr, iq, eq @ [penalty_form (CHR ''='') c])"
    unfolding step using gt lt eq
    by (simp add: penalty_split_cases eqn_single py_split_single_Suc penalty_form_def)
qed

lemma solver_aliases_keep:
  assumes "is_relop c"
  shows "(c \<in> set (solver_aliases s)) = (c \<in> set s)"
proof -
  have k: "(c \<in> set (replace t old new)) = (c \<in> set t)"
    if "set old \<inter> set ''<>='' = {}" "set new \<inter> set ''<>='' = {}" for t old new
    by (rule set_replace_keep) (use that assms in \<open>auto simp: is_relop_def\<close>)
  have k1: "(c \<in> set (replace t ''ptp('' ''spread('')) = (c \<in> set t)" for t
    by (rule k) simp_all
  have k2: "(c \<in> set (replace t ''average('' ''mean('')) = (c \<in> set t)" for t
    by (rule k) simp_all
  have k3: "(c \<in> set (replace t ''var('' ''variance('')) = (c \<in> set t)" for t
    by (rule k) simp_all
  have k4: "(c \<in> set (replace t ''prod('' ''product('')) = (c \<in> set t)" for t
    by (rule k) simp_all
  show ?thesis
    unfolding solver_aliases_def Let_def by (simp add: k1 k2 k3 k4)
qed

lemma solver_split_cases:
  "solver_split c =
     (if CHR ''>'' \<in> set c then (py_split c ''>'', expr_max)
      else if CHR ''<'' \<in> set c then (py_split c ''<'', expr_min)
      else (py_split c ''='', expr_eq))"
  by (simp add: solver_split_def Let_def py_split_single_Suc)

lemma constraints_step_cases:
  fixes varname :: string and ndim :: int and line :: string
  assumes nb: "strip line \<noteq> []" and vn: "\<forall>c \<in> set varname. \<not> is_relop c"
  defines "c \<equiv> solver_aliases (strip (index_vars varname ndim line))"
  shows "CHR ''>'' \<in> set line \<Longrightarrow>
           constraints_step varname ndim (pr, ps) line =
             bind (impose_all (expr_max (lhs_at (CHR ''>'') c) (rhs_at (CHR ''>'') c)))
               (\<lambda>e. Inr (pr, ps @ [e]))"
    and "CHR ''>'' \<notin> set line \<Longrightarrow> CHR ''<'' \<in> set line \<Longrightarrow>
           constraints_step varname ndim (pr, ps) line =
             bind (impose_all (expr_min (lhs_at (CHR ''<'') c) (rhs_at (CHR ''<'') c)))
               (\<lambda>e. Inr (pr, ps @ [e]))"
    and "CHR ''>'' \<notin> set line \<Longrightarrow> CHR ''<'' \<notin> set line \<Longrightarrow> CHR ''='' \<in> set line \<Longrightarrow>
           constraints_step varname ndim (pr, ps) line =
             bind (impose_all (expr_eq (lhs_at (CHR ''='') c) (rhs_at (CHR ''='') c)))
               (\<lambda>e. Inr (pr, ps @ [e]))"
proof -
  have keep: "(op \<in> set c) = (op \<in> set line)" if "is_relop op" for op
  proof -
    have "op \<notin> set varname" using vn that by auto
    then show ?thesis
      unfolding c_def using that by (simp add: solver_aliases_keep normal_keep)
  qed
  have gt: "(CHR ''>'' \<in> set c) = (CHR ''>'' \<in> set line)"
    by (rule keep) (simp add: is_relop_def)
  have lt: "(CHR ''<'' \<in> set c) = (CHR ''<'' \<in> set line)"
    by (rule keep) (simp add: is_relop_def)
  have eq: "(CHR ''='' \<in> set c) = (CHR ''='' \<in> set line)"
    by (rule keep) (simp add: is_relop_def)
  have step: "constraints_step varname ndim (pr, ps) line =
      (case solver_split c of (split, expression) \<Rightarrow>
         case eqn split of (lhs, rhs) \<Rightarrow>
           bind (impose_all (expression lhs rhs))
             (\<lambda>e. Inr (if length split = 1 then pr @ [''Invalid constraint:  '' @ c] else pr,
                        ps @ [e])))"
    unfolding c_def using nb by (simp add: constraints_step_def Let_def split: prod.splits)
  show "CHR ''>'' \<in> set line \<Longrightarrow>
           constraints_step varname ndim (pr, ps) line =
             bind (impose_all (expr_max (lhs_at (CHR ''>'') c) (rhs_at (CHR ''>'') c)))
               (\<lambda>e. Inr (pr, ps @ [e]))"
    unfolding step using gt
    by (simp add: solver_split_cases eqn_single py_split_single_Suc)
  show "CHR ''>'' \<notin> set line \<Longrightarrow> CHR ''<'' \<in> set line \<Longrightarrow>
           constraints_step varname ndim (pr, ps) line =
             bind (impose_all (expr_min (lhs_at (CHR ''<'') c) (rhs_at (CHR ''<'') c)))
               (\<lambda>e. Inr (pr, ps @ [e]))"
    unfolding step using gt lt
    by (simp add: solver_split_cases eqn_single py_split_single_Suc)
  show "CHR ''>'' \<notin> set line \<Longrightarrow> CHR ''<'' \<notin> set line \<Longrightarrow> CHR ''='' \<in> set line \<Longrightarrow>
           constraints_step varname ndim (pr, ps) line =
             bind (impose_all (expr_eq (lhs_at (CHR ''='') c) (rhs_at (CHR ''='') c)))
               (\<lambda>e. Inr (pr, ps @ [e]))"
    unfolding step using gt lt eq
    by (simp add: solver_split_cases eqn_single py_split_single_Suc)
qed

subsection \<open>Sequencing\<close>

lemma bind_Inr [simp]: "bind (Inr v) f = f v"
  by (simp add: bind_def)

lemma bind_Inl [simp]: "bind (Inl e) f = Inl e"
  by (simp add: bind_def)

lemma bind_assoc: "bind (bind m f) g = bind m (\<lambda>v. bind (f v) g)"
  by (cases m) simp_all

lemma bind_Inr_right [simp]: "bind m Inr = m"
  by (cases m) simp_all

lemma bind_return_pair: "bind m (\<lambda>(a, b). Inr (a, b)) = m"
  by (cases m) simp_all

lemma apply_seq_append:
  "apply_seq (fs @ gs) p st = bind (apply_seq fs p st) (\<lambda>(p', st'). apply_seq gs p' st')"
proof (induction fs arbitrary: p st)
  case Nil
  show ?case by simp
next
  case (Cons f fs)
  show ?case
  proof (cases "f p st")
    case (Inl e)
    then show ?thesis by simp
  next
    case (Inr r)
    obtain p1 st1 where r: "r = (p1, st1)" by (cases r)
    show ?thesis using Inr r Cons.IH[of p1 st1] by simp
  qed
qed

lemma apply_seq_single: "apply_seq [f] p st = f p st"
  by (cases "f p st") auto

lemma zip_replicate_same: "zip (replicate (length xs) k) xs = map (Pair k) xs"
  by (induction xs) simp_all

lemma fold_inner:
  "fst (foldl cstep (cf, d) (map (Pair inner) ss)) =
     (\<lambda>p st. bind (apply_seq (rev (map scall ss)) p st) (\<lambda>(p', st'). cf p' st'))"
proof (induction ss arbitrary: cf d)
  case Nil
  show ?case by simp
next
  case (Cons s ss)
  define cf' where "cf' = (\<lambda>p st. bind (scall s p st) (\<lambda>(p', st'). cf p' st'))"
  define d' where "d' = d @ kname inner @ '': '' @ sdoc s @ [CHR 0x0A]"
  have step: "cstep (cf, d) (inner, s) = (cf', d')"
    by (simp add: cstep_def inner_def cf'_def d'_def)
  have "fst (foldl cstep (cf, d) (map (Pair inner) (s # ss))) =
          fst (foldl cstep (cf', d') (map (Pair inner) ss))"
    by (simp add: step)
  also have "\<dots> = (\<lambda>p st. bind (apply_seq (rev (map scall ss)) p st) (\<lambda>(p', st'). cf' p' st'))"
    by (rule Cons.IH)
  also have "\<dots> = (\<lambda>p st. bind (apply_seq (rev (map scall (s # ss))) p st) (\<lambda>(p', st'). cf p' st'))"
  proof (intro ext)
    fix p st
    have "bind (apply_seq (rev (map scall (s # ss))) p st) (\<lambda>(p', st'). cf p' st')
        = bind (bind (apply_seq (rev (map scall ss)) p st) (\<lambda>(p', st'). apply_seq [scall s] p' st'))
            (\<lambda>(p', st'). cf p' st')"
      by (simp add: apply_seq_append)
    also have "\<dots> = bind (apply_seq (rev (map scall ss)) p st)
                        (\<lambda>r. bind (case r of (p', st') \<Rightarrow> apply_seq [scall s] p' st')
                                 (\<lambda>(p', st'). cf p' st'))"
      by (rule bind_assoc)
    also have "\<dots> = bind (apply_seq (rev (map scall ss)) p st) (\<lambda>(p', st'). cf' p' st')"
      by (simp add: apply_seq_single cf'_def split_def)
    finally show "bind (apply_seq (rev (map scall ss)) p st) (\<lambda>(p', st'). cf' p' st')
        = bind (apply_seq (rev (map scall (s # ss))) p st) (\<lambda>(p', st'). cf p' st')"
      by simp
  qed
  finally show ?case .
qed

lemma generate_constraint_call:
  "scall (generate_constraint conds None) =
     fst (foldl cstep ((\<lambda>p st. Inr (p, st)), []) (map (Pair inner) (flatten conds)))"
  by (simp add: generate_constraint_def Let_def zip_replicate_same split_def)


subsection \<open>What a solver call does to the store\<close>




lemma map_err_all:
  "(\<And>x. x \<in> set xs \<Longrightarrow> \<exists>y. f x = Inr y) \<Longrightarrow> \<exists>ys. map_err f xs = Inr ys"
proof (induction xs)
  case Nil
  show ?case by simp
next
  case (Cons x xs)
  from Cons.prems obtain y where "f x = Inr y" by auto
  moreover from Cons obtain ys where "map_err f xs = Inr ys" by auto
  ultimately show ?case by simp
qed



subsection \<open>Building never looks into the expression\<close>

lemma map_err_build_solver:
  "list_all plain_text eqs \<Longrightarrow>
   map_err (build_solver ns) eqs =
     Inr (map (\<lambda>t. \<lparr> sdoc = t, sname = ''solver'',
                      scall = (\<lambda>p st. bind (py_exec ns t p st) (\<lambda>st'. Inr (p, st'))) \<rparr>) eqs)"
  by (induction eqs) (simp_all add: build_solver_def)

lemma map_err_build_condition:
  "list_all plain_text eqs \<Longrightarrow>
   map_err (build_condition ns tag) eqs =
     Inr (map (\<lambda>t. \<lparr> cdoc = t, cname = tag, ccall = py_eval ns t \<rparr>) eqs)"
  by (induction eqs) (simp_all add: build_condition_def)


subsection \<open>Replacing names in a text of pieces\<close>

lemma replace_go_skip:
  assumes "\<And>j. j < length u \<Longrightarrow> \<not> prefix old (drop j u @ rest)"
  shows "replace_go old new (u @ rest) = u @ replace_go old new rest"
  using assms
proof (induction u)
  case Nil
  show ?case by simp
next
  case (Cons a u)
  have "\<not> prefix old (a # u @ rest)"
    using Cons.prems[of 0] by simp
  then have "replace_go old new ((a # u) @ rest) = a # replace_go old new (u @ rest)"
    using replace_go_nomatch[of old a "u @ rest" new] by simp
  moreover have "replace_go old new (u @ rest) = u @ replace_go old new rest"
  proof (rule Cons.IH)
    fix j assume "j < length u"
    then show "\<not> prefix old (drop j u @ rest)"
      using Cons.prems[of "Suc j"] by simp
  qed
  ultimately show ?case by simp
qed

lemma prefix_head_mem: "old \<noteq> [] \<Longrightarrow> prefix old (c # xs) \<Longrightarrow> c \<in> set old"
  by (cases old) auto

lemma skip_foreign:
  assumes "old \<noteq> []" and "\<forall>c \<in> set u. c \<notin> set old"
  shows "replace_go old new (u @ rest) = u @ replace_go old new rest"
proof (rule replace_go_skip)
  fix j assume j: "j < length u"
  then have d: "drop j u = u ! j # drop (Suc j) u"
    by (simp add: Cons_nth_drop_Suc)
  have "u ! j \<notin> set old" using assms(2) j by simp
  then show "\<not> prefix old (drop j u @ rest)"
    using prefix_head_mem[OF assms(1), of "u ! j" "drop (Suc j) u @ rest"] d by auto
qed

lemma skip_short:
  assumes "length u \<le> length old" and "u \<noteq> old"
      and "rest = [] \<or> hd rest \<notin> set old"
  shows "replace_go old new (u @ rest) = u @ replace_go old new rest"
proof (rule replace_go_skip)
  fix j assume j: "j < length u"
  show "\<not> prefix old (drop j u @ rest)"
  proof
    assume p: "prefix old (drop j u @ rest)"
    define t where "t = drop j u"
    from p obtain z where z: "t @ rest = old @ z"
      unfolding t_def by (auto elim: prefixE)
    have tl: "length t \<le> length old" using assms(1) by (simp add: t_def)
    show False
    proof (cases "length t = length old")
      case True
      with z have "t = old" by (metis append_eq_append_conv)
      moreover from True assms(1) have "j = 0" using j by (simp add: t_def)
      ultimately show False using assms(2) by (simp add: t_def)
    next
      case False
      with tl have lt: "length t < length old" by simp
      from z have "old = take (length old) (t @ rest)" by (metis append_eq_conv_conj)
      then have o: "old = t @ take (length old - length t) rest" using lt by simp
      have "rest \<noteq> []"
      proof
        assume "rest = []"
        with o lt show False by (metis append_Nil2 less_irrefl take_Nil)
      qed
      then obtain r rs where r: "rest = r # rs" by (cases rest) auto
      from lt have "take (length old - length t) rest = r # take (length old - length t - 1) rs"
        using r by (cases "length old - length t") simp_all
      with o have "r \<in> set old" by (metis in_set_conv_decomp)
      with assms(3) r show False by simp
    qed
  qed
qed

lemma replace_go_whole:
  "old \<noteq> [] \<Longrightarrow> replace_go old new (old @ rest) = new @ replace_go old new rest"
proof -
  assume ne: "old \<noteq> []"
  then obtain a os where o: "old = a # os" by (cases old) auto
  have "replace_go old new (a # (os @ rest)) =
          new @ replace_go old new (drop (length old - 1) (os @ rest))"
    by (rule replace_go_match) (use o in simp_all)
  then show ?thesis using o by simp
qed

lemma render_Nil [simp]: "render f [] = []"
  by (simp add: render_def)

lemma render_Cons [simp]: "render f (p # ps) = piece_text f p @ render f ps"
  by (simp add: render_def)

lemma separated_tail: "separated (p # ps) \<Longrightarrow> separated ps"
  by (induction "p # ps" arbitrary: p ps rule: separated.induct) auto

lemma separated_after_ref:
  "separated (Ref i # ps) \<Longrightarrow> ps = [] \<or> (\<exists>c ps'. ps = Lit c # ps' \<and> \<not> is_digit c)"
  by (cases ps rule: separated.cases) auto

lemma render_cong: "(\<And>i. i \<in> set (refs ps) \<Longrightarrow> f i = g i) \<Longrightarrow> render f ps = render g ps"
proof (induction ps)
  case Nil
  show ?case by simp
next
  case (Cons p ps)
  then show ?case by (cases p) auto
qed

lemma replace_step:
  fixes V :: "string list" and m :: string
  assumes k: "V ! k \<noteq> []" "k \<notin> D"
      and tok: "\<And>i c. c \<in> set (m @ str_nat i) \<Longrightarrow> c \<notin> set (V ! k)"
      and lit: "\<And>c. Lit c \<in> set ps \<Longrightarrow> c \<notin> set (V ! k)"
      and short: "\<And>j. j \<in> set (refs ps) \<Longrightarrow> j \<notin> D \<Longrightarrow> j \<noteq> k \<Longrightarrow>
                    length (V ! j) \<le> length (V ! k) \<and> V ! j \<noteq> V ! k"
      and sep: "separated ps"
  shows "replace_go (V ! k) (m @ str_nat k)
           (render (\<lambda>i. if i \<in> D then m @ str_nat i else V ! i) ps)
         = render (\<lambda>i. if i \<in> insert k D then m @ str_nat i else V ! i) ps"
  using lit short sep
proof (induction ps)
  case Nil
  show ?case by simp
next
  case (Cons p ps)
  define old where "old = V ! k"
  define new where "new = m @ str_nat k"
  define f where "f = (\<lambda>i. if i \<in> D then m @ str_nat i else V ! i)"
  define f' where "f' = (\<lambda>i. if i \<in> insert k D then m @ str_nat i else V ! i)"
  have ne: "old \<noteq> []" using k(1) by (simp add: old_def)
  have ih: "replace_go old new (render f ps) = render f' ps"
    unfolding old_def new_def f_def f'_def
  proof (rule Cons.IH)
    fix c assume "Lit c \<in> set ps"
    then show "c \<notin> set (V ! k)" using Cons.prems(1) by simp
  next
    fix j assume "j \<in> set (refs ps)" "j \<notin> D" "j \<noteq> k"
    then show "length (V ! j) \<le> length (V ! k) \<and> V ! j \<noteq> V ! k"
      using Cons.prems(2)[of j] by (cases p) auto
  next
    show "separated ps" using Cons.prems(3) by (rule separated_tail)
  qed
  show ?case
  proof (cases p)
    case (Lit c)
    have "c \<notin> set old" using Cons.prems(1)[of c] Lit by (simp add: old_def)
    then have "replace_go old new ([c] @ render f ps) = [c] @ replace_go old new (render f ps)"
      using ne by (intro skip_foreign) simp_all
    then show ?thesis
      using ih Lit by (simp add: old_def new_def f_def f'_def)
  next
    case (Ref i)
    have bound: "render f ps = [] \<or> hd (render f ps) \<notin> set old"
    proof -
      from Cons.prems(3) Ref have "ps = [] \<or> (\<exists>c ps'. ps = Lit c # ps' \<and> \<not> is_digit c)"
        using separated_after_ref by simp
      then show ?thesis
      proof
        assume "ps = []" then show ?thesis by simp
      next
        assume "\<exists>c ps'. ps = Lit c # ps' \<and> \<not> is_digit c"
        then obtain c ps' where ps: "ps = Lit c # ps'" by blast
        then have "c \<notin> set old" using Cons.prems(1)[of c] by (simp add: old_def)
        then show ?thesis using ps by simp
      qed
    qed
    have step: "replace_go old new (f i @ render f ps) = f' i @ replace_go old new (render f ps)"
    proof (cases "i \<in> D")
      case True
      have "\<forall>c \<in> set (m @ str_nat i). c \<notin> set old"
        using tok by (auto simp: old_def)
      then have "replace_go old new ((m @ str_nat i) @ render f ps)
                   = (m @ str_nat i) @ replace_go old new (render f ps)"
        using ne by (intro skip_foreign) simp_all
      then show ?thesis using True by (simp add: f_def f'_def)
    next
      case notD: False
      show ?thesis
      proof (cases "i = k")
        case True
        have "replace_go old new (old @ render f ps) = new @ replace_go old new (render f ps)"
          using ne by (rule replace_go_whole)
        then show ?thesis using True k(2) by (simp add: f_def f'_def old_def new_def)
      next
        case False
        have s: "length (V ! i) \<le> length old \<and> V ! i \<noteq> old"
          using Cons.prems(2)[of i] Ref notD False by (simp add: old_def)
        have "replace_go old new (V ! i @ render f ps) = V ! i @ replace_go old new (render f ps)"
          using s bound by (intro skip_short) simp_all
        then show ?thesis using notD False by (simp add: f_def f'_def)
      qed
    qed
    show ?thesis
      using step ih Ref by (simp add: old_def new_def f_def f'_def)
  qed
qed

lemma index_of_nth: "v \<in> set V \<Longrightarrow> index_of V v < length V \<and> V ! index_of V v = v"
  by (induction V) auto

lemma index_of_distinct: "distinct V \<Longrightarrow> i < length V \<Longrightarrow> index_of V (V ! i) = i"
proof (induction V arbitrary: i)
  case Nil
  then show ?case by simp
next
  case (Cons a V)
  show ?case
  proof (cases i)
    case 0
    then show ?thesis by simp
  next
    case (Suc j)
    then have "V ! j \<in> set V" using Cons.prems(2) by simp
    then have "V ! j \<noteq> a" using Cons.prems(1) by auto
    then show ?thesis using Suc Cons by simp
  qed
qed

lemma refs_mem: "(Ref i \<in> set ps) = (i \<in> set (refs ps))"
  by (induction ps rule: refs.induct) auto

lemma fold_replace:
  fixes V :: "string list" and m :: string
  assumes nonempty: "\<And>i. i < length V \<Longrightarrow> V ! i \<noteq> []"
      and dV: "distinct V"
      and tok: "\<And>i j c. j < length V \<Longrightarrow> c \<in> set (m @ str_nat i) \<Longrightarrow> c \<notin> set (V ! j)"
      and lit: "\<And>c j. Lit c \<in> set ps \<Longrightarrow> j < length V \<Longrightarrow> c \<notin> set (V ! j)"
      and rf: "\<And>j. j \<in> set (refs ps) \<Longrightarrow> j < length V"
      and sep: "separated ps"
      and "distinct is"
      and "sorted_wrt (\<lambda>a b. length (V ! b) \<le> length (V ! a)) is"
      and "set is \<inter> D = {}"
      and "D \<union> set is = {..<length V}"
  shows "foldl (\<lambda>cs i. replace cs (V ! i) (m @ str_nat i))
           (render (\<lambda>i. if i \<in> D then m @ str_nat i else V ! i) ps) is
         = render (\<lambda>i. if i \<in> D \<union> set is then m @ str_nat i else V ! i) ps"
  using assms(7-10)
proof (induction "is" arbitrary: D)
  case Nil
  then show ?case by simp
next
  case (Cons k "is")
  have kV: "k < length V" using Cons.prems(4) by auto
  have kD: "k \<notin> D" using Cons.prems(3) by auto
  have ne: "V ! k \<noteq> []" using nonempty kV by simp
  have one: "replace (render (\<lambda>i. if i \<in> D then m @ str_nat i else V ! i) ps) (V ! k) (m @ str_nat k)
           = render (\<lambda>i. if i \<in> insert k D then m @ str_nat i else V ! i) ps"
  proof -
    have "replace_go (V ! k) (m @ str_nat k)
             (render (\<lambda>i. if i \<in> D then m @ str_nat i else V ! i) ps)
           = render (\<lambda>i. if i \<in> insert k D then m @ str_nat i else V ! i) ps"
    proof (rule replace_step[OF ne kD])
      fix i c assume "c \<in> set (m @ str_nat i)"
      then show "c \<notin> set (V ! k)" using tok[OF kV] by blast
    next
      fix c assume "Lit c \<in> set ps"
      then show "c \<notin> set (V ! k)" using lit kV by blast
    next
      fix j assume j: "j \<in> set (refs ps)" "j \<notin> D" "j \<noteq> k"
      then have jV: "j < length V" using rf by simp
      then have "j \<in> D \<union> set (k # is)" using Cons.prems(4) by auto
      then have jis: "j \<in> set is" using j by auto
      then have "length (V ! j) \<le> length (V ! k)" using Cons.prems(2) by auto
      moreover have "V ! j \<noteq> V ! k"
        using dV jV kV j(3) by (simp add: nth_eq_iff_index_eq)
      ultimately show "length (V ! j) \<le> length (V ! k) \<and> V ! j \<noteq> V ! k" by simp
    next
      show "separated ps" by (rule sep)
    qed
    then show ?thesis using ne by (simp add: replace_def)
  qed
  have "foldl (\<lambda>cs i. replace cs (V ! i) (m @ str_nat i))
           (render (\<lambda>i. if i \<in> D then m @ str_nat i else V ! i) ps) (k # is)
      = foldl (\<lambda>cs i. replace cs (V ! i) (m @ str_nat i))
           (render (\<lambda>i. if i \<in> insert k D then m @ str_nat i else V ! i) ps) is"
    using one by simp
  also have "\<dots> = render (\<lambda>i. if i \<in> insert k D \<union> set is then m @ str_nat i else V ! i) ps"
  proof (rule Cons.IH)
    show "distinct is" using Cons.prems(1) by simp
    show "sorted_wrt (\<lambda>a b. length (V ! b) \<le> length (V ! a)) is" using Cons.prems(2) by simp
    show "set is \<inter> insert k D = {}" using Cons.prems(1,3) by auto
    show "insert k D \<union> set is = {..<length V}" using Cons.prems(4) by auto
  qed
  also have "insert k D \<union> set is = D \<union> set (k # is)" by auto
  finally show ?case .
qed

lemma replace_go_same: "old \<noteq> [] \<Longrightarrow> replace_go old old s = s"
proof (induction s rule: length_induct)
  case (1 s)
  show ?case
  proof (cases s)
    case Nil
    then show ?thesis by simp
  next
    case (Cons c cs)
    show ?thesis
    proof (cases "prefix old (c # cs)")
      case True
      have eq: "c # cs = old @ drop (length old - 1) cs"
        using "1.prems" True by (rule prefix_drop_eq)
      have "length (drop (length old - 1) cs) < length s" using Cons by simp
      then have ih: "replace_go old old (drop (length old - 1) cs) = drop (length old - 1) cs"
        using "1.IH" "1.prems" by blast
      have "replace_go old old (c # cs) = old @ replace_go old old (drop (length old - 1) cs)"
        using "1.prems" True by (rule replace_go_match)
      then show ?thesis using ih eq Cons by simp
    next
      case False
      have "length cs < length s" using Cons by simp
      then have ih: "replace_go old old cs = cs" using "1.IH" "1.prems" by blast
      have "replace_go old old (c # cs) = c # replace_go old old cs"
        using False by (intro replace_go_nomatch) simp
      then show ?thesis using ih Cons by simp
    qed
  qed
qed

lemma indices_facts:
  assumes "distinct V"
  defines "ixs \<equiv> map (index_of V) (sort_key (\<lambda>v. - int (length v)) V)"
  shows "distinct ixs" and "set ixs = {..<length V}"
    and "sorted_wrt (\<lambda>a b. length (V ! b) \<le> length (V ! a)) ixs"
proof -
  define sv where "sv = sort_key (\<lambda>v. - int (length v)) V"
  have set_sv: "set sv = set V" by (simp add: sv_def)
  have dist_sv: "distinct sv" using assms(1) by (simp add: sv_def)
  have inj: "inj_on (index_of V) (set sv)"
  proof (rule inj_onI)
    fix a b assume "a \<in> set sv" "b \<in> set sv" "index_of V a = index_of V b"
    then show "a = b" using index_of_nth[of a V] index_of_nth[of b V] set_sv by metis
  qed
  show "distinct ixs" unfolding ixs_def sv_def[symmetric]
    using dist_sv inj by (simp add: distinct_map)
  show "set ixs = {..<length V}"
  proof
    show "set ixs \<subseteq> {..<length V}"
    proof
      fix i assume "i \<in> set ixs"
      then obtain v where v: "v \<in> set sv" "i = index_of V v"
        unfolding ixs_def sv_def[symmetric] by auto
      then show "i \<in> {..<length V}" using index_of_nth[of v V] set_sv by simp
    qed
    show "{..<length V} \<subseteq> set ixs"
    proof
      fix i assume "i \<in> {..<length V}"
      then have i: "i < length V" by simp
      then have "V ! i \<in> set sv" using set_sv by simp
      moreover have "index_of V (V ! i) = i" using assms(1) i by (rule index_of_distinct)
      ultimately show "i \<in> set ixs" unfolding ixs_def sv_def[symmetric] by force
    qed
  qed
  have "sorted (map (\<lambda>v. - int (length v)) sv)" unfolding sv_def by (rule sorted_sort_key)
  then have s1: "sorted_wrt (\<lambda>x y. - int (length x) \<le> - int (length y)) sv"
    by (simp add: sorted_wrt_map)
  have "sorted_wrt (\<lambda>x y. length (V ! index_of V y) \<le> length (V ! index_of V x)) sv"
  proof (rule sorted_wrt_mono_rel[OF _ s1])
    fix x y assume "x \<in> set sv" "y \<in> set sv" "- int (length x) \<le> - int (length y)"
    then show "length (V ! index_of V y) \<le> length (V ! index_of V x)"
      using index_of_nth[of x V] index_of_nth[of y V] set_sv by simp
  qed
  then show "sorted_wrt (\<lambda>a b. length (V ! b) \<le> length (V ! a)) ixs"
    unfolding ixs_def sv_def[symmetric] by (simp add: sorted_wrt_map)
qed

lemma str_nat_nonempty: "str_nat n \<noteq> []"
  by (subst str_nat.simps) simp

lemma str_nat_is_digit:
  assumes "c \<in> set (str_nat n)"
  shows "is_digit c"
  unfolding is_digit_def by (rule subsetD[OF str_nat_digits assms])

lemma well_formed_rename:
  assumes wf: "well_formed V m ps"
  shows "replace_variables_base (render (\<lambda>i. V ! i) ps) V m = render (\<lambda>i. m @ str_nat i) ps"
proof -
  from wf have dV: "distinct V" and mne: "m \<noteq> []" and sep: "separated ps"
    and names: "list_all (\<lambda>v. v \<noteq> [] \<and> list_all (\<lambda>c. \<not> is_digit c \<and> c \<notin> set m) v) V"
    and pieces: "list_all (\<lambda>p. case p of Ref i \<Rightarrow> i < length V
                             | Lit c \<Rightarrow> c \<notin> set m \<and> list_all (\<lambda>v. c \<notin> set v) V) ps"
    by (simp_all add: well_formed_def)
  have name: "V ! j \<noteq> [] \<and> (\<forall>c \<in> set (V ! j). \<not> is_digit c \<and> c \<notin> set m)" if "j < length V" for j
  proof -
    from that have "V ! j \<in> set V" by simp
    with names have "V ! j \<noteq> [] \<and> list_all (\<lambda>c. \<not> is_digit c \<and> c \<notin> set m) (V ! j)"
      by (simp add: list_all_iff)
    then show ?thesis by (simp add: list_all_iff)
  qed
  have notin: "m \<notin> set V"
  proof
    assume "m \<in> set V"
    then obtain j where j: "j < length V" "V ! j = m" by (auto simp: in_set_conv_nth)
    from mne have "hd m \<in> set m" by simp
    then show False using name[OF j(1)] j(2) by auto
  qed
  have nonempty: "\<And>i. i < length V \<Longrightarrow> V ! i \<noteq> []" using name by simp
  have tok: "\<And>i j c. j < length V \<Longrightarrow> c \<in> set (m @ str_nat i) \<Longrightarrow> c \<notin> set (V ! j)"
    using name str_nat_is_digit by fastforce
  have lit: "\<And>c j. Lit c \<in> set ps \<Longrightarrow> j < length V \<Longrightarrow> c \<notin> set (V ! j)"
  proof -
    fix c j assume c: "Lit c \<in> set ps" and j: "j < length V"
    from pieces c have "list_all (\<lambda>v. c \<notin> set v) V" by (auto simp: list_all_iff)
    then show "c \<notin> set (V ! j)" using j by (simp add: list_all_length)
  qed
  have rf: "\<And>j. j \<in> set (refs ps) \<Longrightarrow> j < length V"
  proof -
    fix j assume "j \<in> set (refs ps)"
    then have "Ref j \<in> set ps" by (simp add: refs_mem)
    then show "j < length V" using pieces by (auto simp: list_all_iff)
  qed
  define ixs where "ixs = map (index_of V) (sort_key (\<lambda>v. - int (length v)) V)"
  have ix: "distinct ixs" "set ixs = {..<length V}"
      "sorted_wrt (\<lambda>a b. length (V ! b) \<le> length (V ! a)) ixs"
    unfolding ixs_def using indices_facts[OF dV] by simp_all
  have "foldl (\<lambda>cs i. replace cs (V ! i) (m @ str_nat i))
           (render (\<lambda>i. if i \<in> {} then m @ str_nat i else V ! i) ps) ixs
         = render (\<lambda>i. if i \<in> {} \<union> set ixs then m @ str_nat i else V ! i) ps"
    by (rule fold_replace[OF nonempty dV tok lit rf sep ix(1) ix(3)]) (simp_all add: ix(2))
  then have fold: "foldl (\<lambda>cs i. replace cs (V ! i) (m @ str_nat i)) (render (\<lambda>i. V ! i) ps) ixs
         = render (\<lambda>i. if i < length V then m @ str_nat i else V ! i) ps"
    by (simp add: ix(2))
  have "render (\<lambda>i. if i < length V then m @ str_nat i else V ! i) ps
          = render (\<lambda>i. m @ str_nat i) ps"
    by (rule render_cong) (simp add: rf)
  with fold have f2: "foldl (\<lambda>cs i. replace cs (V ! i) (m @ str_nat i)) (render (\<lambda>i. V ! i) ps) ixs
         = render (\<lambda>i. m @ str_nat i) ps" by simp
  show ?thesis
    using notin mne f2
    by (simp add: replace_variables_base_def Let_def ixs_def[symmetric] replace_def replace_go_same)
qed

subsection \<open>Extracting the canonical names\<close>

declare findall.simps [simp del]

lemma takeWhile_stop:
  "(\<forall>c \<in> set ds. P c) \<Longrightarrow> rest = [] \<or> \<not> P (hd rest) \<Longrightarrow> takeWhile P (ds @ rest) = ds"
  by (induction ds) (auto simp: takeWhile_eq_Nil_iff neq_Nil_conv)

lemma takeWhile_append_stop: "\<not> P b \<Longrightarrow> takeWhile P (xs @ b # v) = takeWhile P xs"
  by (induction xs) auto

lemma findall_skip_char: "m \<noteq> [] \<Longrightarrow> c \<notin> set m \<Longrightarrow> findall m (c # rest) = findall m rest"
  using prefix_head_mem[of m c rest] by (auto simp: Let_def findall.simps)

lemma findall_token:
  assumes "m \<noteq> []" "ds \<noteq> []" "\<forall>c \<in> set ds. is_digit c" "rest = [] \<or> \<not> is_digit (hd rest)"
  shows "findall m (m @ ds @ rest) = (m @ ds) # findall m rest"
proof -
  from assms(1) obtain a ms where m: "m = a # ms" by (cases m) auto
  have tw: "takeWhile is_digit (ds @ rest) = ds" using assms(3,4) by (rule takeWhile_stop)
  have "findall m (a # (ms @ ds @ rest)) =
      (let s = a # (ms @ ds @ rest); ds' = takeWhile is_digit (drop (length m) s) in
       if prefix m s \<and> ds' \<noteq> []
       then (m @ ds') # findall m (drop (length m + length ds' - 1) (ms @ ds @ rest))
       else findall m (ms @ ds @ rest))"
    by (rule findall.simps(2))
  moreover have "drop (length m) (a # (ms @ ds @ rest)) = ds @ rest" using m by simp
  moreover have "prefix m (a # (ms @ ds @ rest))" using m by simp
  moreover have "drop (length m + length ds - 1) (ms @ ds @ rest) = rest" using m by simp
  ultimately show ?thesis using tw assms(2) m by (simp add: Let_def)
qed

lemma findall_render:
  assumes "m \<noteq> []" and "\<And>c. Lit c \<in> set ps \<Longrightarrow> c \<notin> set m" and "separated ps"
  shows "findall m (render (\<lambda>i. m @ str_nat i) ps) = map (\<lambda>i. m @ str_nat i) (refs ps)"
  using assms(2,3)
proof (induction ps)
  case Nil
  show ?case by (simp add: findall.simps(1))
next
  case (Cons p ps)
  have ih: "findall m (render (\<lambda>i. m @ str_nat i) ps) = map (\<lambda>i. m @ str_nat i) (refs ps)"
  proof (rule Cons.IH)
    fix c assume "Lit c \<in> set ps" then show "c \<notin> set m" using Cons.prems(1) by simp
  next
    show "separated ps" using Cons.prems(2) by (rule separated_tail)
  qed
  show ?case
  proof (cases p)
    case (Lit c)
    then have "c \<notin> set m" using Cons.prems(1)[of c] by simp
    then show ?thesis using Lit ih assms(1) by (simp add: findall_skip_char)
  next
    case (Ref i)
    define rest where "rest = render (\<lambda>i. m @ str_nat i) ps"
    have b: "rest = [] \<or> \<not> is_digit (hd rest)"
    proof -
      from Cons.prems(2) Ref have "ps = [] \<or> (\<exists>c ps'. ps = Lit c # ps' \<and> \<not> is_digit c)"
        using separated_after_ref by simp
      then show ?thesis unfolding rest_def by auto
    qed
    have "findall m (m @ str_nat i @ rest) = (m @ str_nat i) # findall m rest"
      using assms(1) str_nat_nonempty _ b
    proof (rule findall_token)
      show "\<forall>c \<in> set (str_nat i). is_digit c" using str_nat_is_digit by blast
    qed
    then show ?thesis using Ref ih by (simp add: rest_def)
  qed
qed

lemma prefix_before_foreign:
  assumes "prefix m (u @ b # v)" and "b \<notin> set m"
  shows "prefix m u"
proof -
  from assms(1) have "prefix m u \<or> (\<exists>us. m = u @ us \<and> prefix us (b # v))"
    by (simp add: prefix_append)
  then show ?thesis
  proof
    assume "prefix m u" then show ?thesis .
  next
    assume "\<exists>us. m = u @ us \<and> prefix us (b # v)"
    then obtain us where us: "m = u @ us" "prefix us (b # v)" by blast
    show ?thesis
    proof (cases us)
      case Nil
      then show ?thesis using us by simp
    next
      case (Cons a as)
      then have "a = b" using us(2) by simp
      then have "b \<in> set m" using us(1) Cons by simp
      then show ?thesis using assms(2) by simp
    qed
  qed
qed

lemma drop_append_le: "n \<le> length xs \<Longrightarrow> drop n (xs @ ys) = drop n xs @ ys"
  by simp

lemma findall_break:
  assumes "m \<noteq> []" "b \<notin> set m" "\<not> is_digit b"
  shows "findall m (u @ b # v) = findall m u @ findall m v"
proof (induction u rule: length_induct)
  case (1 u)
  show ?case
  proof (cases u)
    case Nil
    then show ?thesis using assms by (simp add: findall_skip_char findall.simps(1))
  next
    case (Cons c cs)
    define ds where "ds = takeWhile is_digit (drop (length m) (c # cs))"
    define n where "n = length m + length ds - 1"
    have ihcs: "findall m (cs @ b # v) = findall m cs @ findall m v"
      using "1.IH" Cons by simp
    show ?thesis
    proof (cases "prefix m (c # cs)")
      case True
      then have len: "length m \<le> length (c # cs)" by (rule prefix_length_le)
      have pw: "prefix m (c # cs @ b # v)" using True by (metis append_Cons prefix_prefix)
      have dw: "takeWhile is_digit (drop (length m) (c # cs @ b # v)) = ds"
      proof -
        have "drop (length m) (c # cs @ b # v) = drop (length m) (c # cs) @ b # v"
          using drop_append_le[OF len, of "b # v"] by simp
        then show ?thesis using assms(3) by (simp add: ds_def takeWhile_append_stop)
      qed
      show ?thesis
      proof (cases "ds = []")
        case True
        have "findall m (c # cs @ b # v) = findall m (cs @ b # v)"
          using dw True by (simp add: Let_def findall.simps)
        moreover have "findall m (c # cs) = findall m cs"
          using True by (simp add: Let_def ds_def findall.simps)
        ultimately show ?thesis using ihcs Cons by simp
      next
        case False
        have dl: "length ds \<le> length (c # cs) - length m"
          unfolding ds_def by (metis length_drop length_takeWhile_le)
        then have nle: "n \<le> length cs" using len False unfolding n_def by (cases ds) auto
        have w: "findall m (c # cs @ b # v) = (m @ ds) # findall m (drop n (cs @ b # v))"
          using dw False pw by (simp add: Let_def n_def findall.simps)
        have u': "findall m (c # cs) = (m @ ds) # findall m (drop n cs)"
          using False \<open>prefix m (c # cs)\<close> by (simp add: Let_def n_def ds_def findall.simps)
        have "length (drop n cs) < length u" using Cons by simp
        then have "findall m (drop n cs @ b # v) = findall m (drop n cs) @ findall m v"
          using "1.IH" by blast
        moreover have "drop n (cs @ b # v) = drop n cs @ b # v" using nle by simp
        ultimately show ?thesis using w u' Cons by simp
      qed
    next
      case False
      have "\<not> prefix m (c # cs @ b # v)"
        using prefix_before_foreign[of m "c # cs" b v] False assms(2) by auto
      then have "findall m (c # cs @ b # v) = findall m (cs @ b # v)"
        by (simp add: Let_def findall.simps)
      moreover have "findall m (c # cs) = findall m cs"
        using False by (simp add: Let_def findall.simps)
      ultimately show ?thesis using ihcs Cons by simp
    qed
  qed
qed

lemma findall_lines:
  assumes "m \<noteq> []" "CHR 0x0A \<notin> set m" "CHR 0x0D \<notin> set m"
  shows "concat (map (findall m) (splitlines_go cur s)) = findall m (rev cur @ s)"
proof (induction s arbitrary: cur rule: length_induct)
  case (1 s)
  have nd: "\<not> is_digit (CHR 0x0A)" "\<not> is_digit (CHR 0x0D)" by (simp_all add: is_digit_def)
  have brk: "findall m (u @ b # v) = findall m u @ findall m v"
    if "b = CHR 0x0A \<or> b = CHR 0x0D" for u b v
    using that assms nd findall_break[of m b u v] by auto
  show ?case
  proof (cases s)
    case Nil
    then show ?thesis by (simp add: findall.simps(1))
  next
    case (Cons c cs)
    have ihcs: "concat (map (findall m) (splitlines_go cur' cs)) = findall m (rev cur' @ cs)" for cur'
      using "1.IH" Cons by simp
    show ?thesis
    proof (cases "c = CHR 0x0A")
      case True
      then show ?thesis using Cons ihcs[of "[]"] brk[of c "rev cur" cs] by simp
    next
      case nlf: False
      show ?thesis
      proof (cases "c = CHR 0x0D")
        case True
        show ?thesis
        proof (cases cs)
          case Nil
          then show ?thesis
            using Cons True brk[of c "rev cur" "[]"] by (simp add: findall.simps(1))
        next
          case (Cons d ds)
          show ?thesis
          proof (cases "d = CHR 0x0A")
            case dlf: True
            have "length ds < length s" using Cons \<open>s = c # cs\<close> by simp
            then have ihds: "concat (map (findall m) (splitlines_go [] ds)) = findall m ds"
              using "1.IH" by fastforce
            have "findall m (rev cur @ c # d # ds) = findall m (rev cur) @ findall m (d # ds)"
              using brk[of c "rev cur" "d # ds"] True by simp
            moreover have "findall m (d # ds) = findall m ds"
              using dlf assms by (simp add: findall_skip_char)
            ultimately show ?thesis
              using Cons \<open>s = c # cs\<close> True dlf ihds by simp
          next
            case False
            then show ?thesis
              using Cons \<open>s = c # cs\<close> True ihcs[of "[]"] brk[of c "rev cur" cs] by simp
          qed
        qed
      next
        case False
        then show ?thesis using Cons nlf ihcs[of "c # cur"] by simp
      qed
    qed
  qed
qed

lemma add_new_append: "add_new acc (xs @ ys) = add_new (add_new acc xs) ys"
  by (induction xs arbitrary: acc) simp_all

lemma foldl_add_new:
  "foldl (\<lambda>acc line. add_new acc (g line)) acc lines = add_new acc (concat (map g lines))"
  by (induction lines arbitrary: acc) (simp_all add: add_new_append)

lemma set_add_new: "set (add_new acc xs) = set acc \<union> set xs"
  by (induction xs arbitrary: acc) auto

lemma distinct_add_new: "distinct acc \<Longrightarrow> distinct (add_new acc xs)"
  by (induction xs arbitrary: acc) auto

lemma get_variables_base_findall:
  assumes "re_literal m" "m \<noteq> []" "CHR 0x0A \<notin> set m" "CHR 0x0D \<notin> set m"
  shows "get_variables_base t m = Inr (add_new [] (findall m t))"
proof -
  have "concat (map (findall m) (splitlines t)) = findall m t"
    using findall_lines[OF assms(2-4), of "[]" t] by (simp add: splitlines_def)
  then show ?thesis
    using assms(1) by (simp add: get_variables_base_def foldl_add_new)
qed


subsection \<open>Claim C4: the penalty expressions\<close>

text \<open>
  C4. For the constraint text with the lines \<open>x2 = x0/2.\<close> and \<open>x0 >= 0.\<close> and
  \<open>nvars=3\<close>, \<open>penalty_parser\<close> returns the inequality expression
  \<open>-(x[0] - (0.))\<close> and the equality expression \<open>x[2] - (x[0]/2.)\<close>, printing
  nothing. In general, on a non-blank line (the variable base holding no
  relational operator), the loop body builds \<open>lhs - (rhs)\<close> around the operator
  that wins and appends it to the equality list for \<open>=\<close>, to the inequality
  list for \<open><\<close>, and appends \<open>-(lhs - (rhs))\<close> to the inequality list for \<open>>\<close>.
\<close>

theorem penalty_parser_expressions:
  assumes "strip line \<noteq> []" and "\<forall>c \<in> set varname. \<not> is_relop c"
  shows "penalty_parser (''x2 = x0/2.'' @ [CHR 0x0A] @ ''x0 >= 0.'') (Base ''x'') (Some 3)
           = Inr ([], [''-(x[0] - (0.))''], [''x[2] - (x[0]/2.)''])
       \<and> (CHR ''>'' \<in> set line \<longrightarrow>
            penalty_step varname ndim (pr, iq, eq) line =
              (pr, iq @ [''-('' @ penalty_form (CHR ''>'')
                   (penalty_aliases (strip (index_vars varname ndim line))) @ '')''], eq))
       \<and> (CHR ''>'' \<notin> set line \<and> CHR ''<'' \<in> set line \<longrightarrow>
            penalty_step varname ndim (pr, iq, eq) line =
              (pr, iq @ [penalty_form (CHR ''<'')
                   (penalty_aliases (strip (index_vars varname ndim line)))], eq))
       \<and> (CHR ''>'' \<notin> set line \<and> CHR ''<'' \<notin> set line \<and> CHR ''='' \<in> set line \<longrightarrow>
            penalty_step varname ndim (pr, iq, eq) line =
              (pr, iq, eq @ [penalty_form (CHR ''='')
                   (penalty_aliases (strip (index_vars varname ndim line)))]))"
proof (intro conjI impI)
  show "penalty_parser (''x2 = x0/2.'' @ [CHR 0x0A] @ ''x0 >= 0.'') (Base ''x'') (Some 3)
           = Inr ([], [''-(x[0] - (0.))''], [''x[2] - (x[0]/2.)''])"
    by code_simp
qed (use penalty_step_cases[OF assms] in simp_all)

theorem penalty_parser_expressions_witness:
  "strip ''x0 >= 0.'' \<noteq> [] \<and> \<not> is_relop (CHR ''x'') \<and>
   penalty_step ''x'' 3 ([], [], [''x[2] - (x[0]/2.)'']) ''x0 >= 0.'' =
     ([], [''-(x[0] - (0.))''], [''x[2] - (x[0]/2.)''])"
proof -
  have h1: "strip ''x0 >= 0.'' \<noteq> []" by code_simp
  have h2: "\<forall>c \<in> set ''x''. \<not> is_relop c" by (simp add: is_relop_def)
  have m: "CHR ''>'' \<in> set ''x0 >= 0.''" by simp
  have f: "penalty_form (CHR ''>'') (penalty_aliases (strip (index_vars ''x'' 3 ''x0 >= 0.'')))
             = ''x[0] - (0.)''"
    by code_simp
  note t = penalty_parser_expressions[OF h1 h2, of 3 "[]" "[]" "[''x[2] - (x[0]/2.)'']"]
  from t[THEN conjunct2, THEN conjunct1, THEN mp, OF m]
  have "penalty_step ''x'' 3 ([], [], [''x[2] - (x[0]/2.)'']) ''x0 >= 0.'' =
     ([], [''-(x[0] - (0.))''], [''x[2] - (x[0]/2.)''])"
    unfolding f by simp
  moreover have "\<not> is_relop (CHR ''x'')" by (simp add: is_relop_def)
  ultimately show ?thesis using h1 by (intro conjI)
qed

subsection \<open>Claim C6: which relational operator wins\<close>

text \<open>
  C6. On every non-blank line (the variable base holding no relational
  operator) both parsers try \<open>>\<close> first, then \<open><\<close>, then \<open>=\<close>: a line with
  \<open>>\<close> is a \<open>>\<close> constraint whatever else it holds, a line with \<open><\<close> and no
  \<open>>\<close> is a \<open><\<close> constraint even when it holds \<open>=\<close> (a literal \<open><=\<close>), and only a
  line with neither is an \<open>=\<close> constraint. The left-hand side is the text before
  the first occurrence of the winning operator with trailing \<open>=\<close> stripped, the
  right-hand side the text after its last occurrence with leading \<open>=\<close> stripped
  (\<open>lhs_at\<close>, \<open>rhs_at\<close>), in \<open>penalty_parser\<close> and in \<open>constraints_parser\<close> alike.
\<close>

theorem relation_priority:
  assumes "strip line \<noteq> []" and "\<forall>c \<in> set varname. \<not> is_relop c"
  shows "(CHR ''>'' \<in> set line \<longrightarrow>
            penalty_step varname ndim (pr, iq, eq) line =
              (pr, iq @ [''-('' @ lhs_at (CHR ''>'') (penalty_aliases (strip (index_vars varname ndim line)))
                   @ '' - ('' @ rhs_at (CHR ''>'') (penalty_aliases (strip (index_vars varname ndim line)))
                   @ '')'' @ '')''], eq) \<and>
            constraints_step varname ndim (pr, ps) line =
              bind (impose_all (expr_max
                     (lhs_at (CHR ''>'') (solver_aliases (strip (index_vars varname ndim line))))
                     (rhs_at (CHR ''>'') (solver_aliases (strip (index_vars varname ndim line))))))
                (\<lambda>e. Inr (pr, ps @ [e])))
       \<and> (CHR ''>'' \<notin> set line \<and> CHR ''<'' \<in> set line \<longrightarrow>
            penalty_step varname ndim (pr, iq, eq) line =
              (pr, iq @ [lhs_at (CHR ''<'') (penalty_aliases (strip (index_vars varname ndim line)))
                   @ '' - ('' @ rhs_at (CHR ''<'') (penalty_aliases (strip (index_vars varname ndim line)))
                   @ '')''], eq) \<and>
            constraints_step varname ndim (pr, ps) line =
              bind (impose_all (expr_min
                     (lhs_at (CHR ''<'') (solver_aliases (strip (index_vars varname ndim line))))
                     (rhs_at (CHR ''<'') (solver_aliases (strip (index_vars varname ndim line))))))
                (\<lambda>e. Inr (pr, ps @ [e])))
       \<and> (CHR ''>'' \<notin> set line \<and> CHR ''<'' \<notin> set line \<and> CHR ''='' \<in> set line \<longrightarrow>
            penalty_step varname ndim (pr, iq, eq) line =
              (pr, iq, eq @ [lhs_at (CHR ''='') (penalty_aliases (strip (index_vars varname ndim line)))
                   @ '' - ('' @ rhs_at (CHR ''='') (penalty_aliases (strip (index_vars varname ndim line)))
                   @ '')'']) \<and>
            constraints_step varname ndim (pr, ps) line =
              bind (impose_all (expr_eq
                     (lhs_at (CHR ''='') (solver_aliases (strip (index_vars varname ndim line))))
                     (rhs_at (CHR ''='') (solver_aliases (strip (index_vars varname ndim line))))))
                (\<lambda>e. Inr (pr, ps @ [e])))"
  using penalty_step_cases[OF assms, of ndim pr iq eq] constraints_step_cases[OF assms, of ndim pr ps]
  by (simp add: penalty_form_def)

theorem relation_priority_witness:
  "strip ''x0 <= 4.'' \<noteq> [] \<and> \<not> is_relop (CHR ''x'') \<and>
   CHR ''='' \<in> set ''x0 <= 4.'' \<and>
   penalty_step ''x'' 1 ([], [], []) ''x0 <= 4.'' = ([], [''x[0] - (4.)''], []) \<and>
   constraints_step ''x'' 1 ([], []) ''x0 <= 4.'' = Inr ([], [''x[0] = min(4., x[0])''])"
proof -
  have h1: "strip ''x0 <= 4.'' \<noteq> []" by code_simp
  have h2: "\<forall>c \<in> set ''x''. \<not> is_relop c" by (simp add: is_relop_def)
  have m: "CHR ''>'' \<notin> set ''x0 <= 4.'' \<and> CHR ''<'' \<in> set ''x0 <= 4.''" by simp
  have l: "lhs_at (CHR ''<'') (penalty_aliases (strip (index_vars ''x'' 1 ''x0 <= 4.''))) = ''x[0]''"
    by code_simp
  have r: "rhs_at (CHR ''<'') (penalty_aliases (strip (index_vars ''x'' 1 ''x0 <= 4.''))) = ''4.''"
    by code_simp
  have ls: "lhs_at (CHR ''<'') (solver_aliases (strip (index_vars ''x'' 1 ''x0 <= 4.''))) = ''x[0]''"
    by code_simp
  have rs: "rhs_at (CHR ''<'') (solver_aliases (strip (index_vars ''x'' 1 ''x0 <= 4.''))) = ''4.''"
    by code_simp
  have i: "bind (impose_all (expr_min ''x[0]'' ''4.'')) (\<lambda>e. Inr (([]::string list), [] @ [e]))
             = Inr ([], [''x[0] = min(4., x[0])''])"
    by code_simp
  note t = relation_priority[OF h1 h2, of 1 "[]" "[]" "[]" "[]"]
  from t[THEN conjunct2, THEN conjunct1, THEN mp, OF m]
  have "penalty_step ''x'' 1 ([], [], []) ''x0 <= 4.'' = ([], [''x[0] - (4.)''], []) \<and>
        constraints_step ''x'' 1 ([], []) ''x0 <= 4.'' = Inr ([], [''x[0] = min(4., x[0])''])"
    unfolding l r ls rs i by simp
  moreover have "\<not> is_relop (CHR ''x'')" by (simp add: is_relop_def)
  moreover have "CHR ''='' \<in> set ''x0 <= 4.''" by simp
  ultimately show ?thesis using h1 by (intro conjI) simp_all
qed

subsection \<open>Claim C2: a line without a relational operator\<close>

text \<open>
  C2. A line that holds none of \<open>=\<close>, \<open><\<close>, \<open>>\<close> should be reported as invalid and
  left out of the compiled output. The parsers print the report and then go on
  with the same line: for the text with the lines \<open>x2 = x0/2.\<close> and \<open>x0 + x1\<close>,
  \<open>penalty_parser\<close> appends \<open>x[0] + x[1] - (x[0] + x[1])\<close> to the equality
  expressions and \<open>constraints_parser\<close> appends \<open>x[0] + x[1] = x[0] + x[1]\<close> to
  the solver expressions.
\<close>

theorem invalid_line_still_compiled:
  "penalty_parser (''x2 = x0/2.'' @ [CHR 0x0A] @ ''x0 + x1'') (Base ''x'') (Some 3)
     = Inr ([''Invalid constraint:  x[0] + x[1]''], [],
            [''x[2] - (x[0]/2.)'', ''x[0] + x[1] - (x[0] + x[1])''])
   \<and> constraints_parser (''x2 = x0/2.'' @ [CHR 0x0A] @ ''x0 + x1'') (Base ''x'') (Some 3)
     = Inr ([''Invalid constraint:  x[0] + x[1]''],
            [''x[2] = x[0]/2.'', ''x[0] + x[1] = x[0] + x[1]''])"
  by code_simp

subsection \<open>Claim C9: the matrix-to-text bridge on Scenario A\<close>

text \<open>
  C9. \<open>linear_symbolic(A=[[3,4,5],[1,6,-9]], b=[0,0], G=[1,0,0], h=[5])\<close> gives
  the inequality line first and then the two equality lines, each ended by a
  newline. With the coefficients given as floats (as in the docstring) the text
  is \<open>1.0*x0 + 0.0*x1 + 0.0*x2 <= 5.0\<close>, \<open>3.0*x0 + 4.0*x1 + 5.0*x2 = 0.0\<close>,
  \<open>1.0*x0 + 6.0*x1 + -9.0*x2 = 0.0\<close>; given as ints the same three lines are
  printed with \<open>str\<close> of the ints (\<open>1*x0 + 0*x1 + 0*x2 <= 5\<close> and so on), which
  denote the same constraints.
\<close>

theorem linear_symbolic_scenario:
  "linear_symbolic
     (Some (Rows [[PyFloat 3, PyFloat 4, PyFloat 5], [PyFloat 1, PyFloat 6, PyFloat (- 9)]]))
     (Some (Flat [PyFloat 0, PyFloat 0]))
     (Some (Flat [PyFloat 1, PyFloat 0, PyFloat 0]))
     (Some (Flat [PyFloat 5]))
   = Inr (''1.0*x0 + 0.0*x1 + 0.0*x2 <= 5.0'' @ [CHR 0x0A] @
          ''3.0*x0 + 4.0*x1 + 5.0*x2 = 0.0'' @ [CHR 0x0A] @
          ''1.0*x0 + 6.0*x1 + -9.0*x2 = 0.0'' @ [CHR 0x0A])
   \<and> linear_symbolic
     (Some (Rows [[PyInt 3, PyInt 4, PyInt 5], [PyInt 1, PyInt 6, PyInt (- 9)]]))
     (Some (Flat [PyInt 0, PyInt 0]))
     (Some (Flat [PyInt 1, PyInt 0, PyInt 0]))
     (Some (Flat [PyInt 5]))
   = Inr (''1*x0 + 0*x1 + 0*x2 <= 5'' @ [CHR 0x0A] @
          ''3*x0 + 4*x1 + 5*x2 = 0'' @ [CHR 0x0A] @
          ''1*x0 + 6*x1 + -9*x2 = 0'' @ [CHR 0x0A])"
  by code_simp

subsection \<open>Claim C1: the order in which the composed constraint runs its solvers\<close>

text \<open>
  Under the default kinds the loop of \<open>generate_constraint\<close> wraps each solver
  inside the function accumulated so far, so a call of the composed function
  runs the solvers of the list last to first.
\<close>

theorem generate_constraint_reverse_order:
  "scall (generate_constraint conds None) = apply_seq (rev (map scall (flatten conds)))"
proof -
  have "scall (generate_constraint conds None) =
      (\<lambda>p st. bind (apply_seq (rev (map scall (flatten conds))) p st) (\<lambda>(p', st'). Inr (p', st')))"
    unfolding generate_constraint_call by (rule fold_inner)
  then show ?thesis by (simp add: bind_return_pair)
qed


subsection \<open>Claim C3: Scenario C\<close>

text \<open>
  C3. The text \<open>x2 = x0/2.\<close>, \<open>x0 >= 0.\<close> with \<open>nvars=3\<close> is compiled by
  \<open>generate_solvers\<close> (which calls \<open>constraints_parser\<close>) without printing
  anything, into the solvers documented \<open>x[2] = x[0]/2.\<close> and
  \<open>x[0] = max(0., x[0])\<close>; \<open>generate_constraint\<close> with default kinds composes
  them, and the composed function sends the point \<open>[-1, 2, -3]\<close> to
  \<open>[0.0, 2, 0.0]\<close>.
\<close>

theorem scenario_c:
  "(case generate_solvers (''x2 = x0/2.'' @ [CHR 0x0A] @ ''x0 >= 0.'') (Base ''x'') (Some 3) builtins of
      Inl e \<Rightarrow> False
    | Inr (printed, ss) \<Rightarrow>
        printed = [] \<and> map sdoc ss = [''x[2] = x[0]/2.'', ''x[0] = max(0., x[0])''] \<and>
        run (scall (generate_constraint (Seq (map Item ss)) None)) [PyInt (- 1), PyInt 2, PyInt (- 3)]
          = Inr [PyFloat 0, PyInt 2, PyFloat 0])"
  by code_simp

subsection \<open>Claim C10: what a solver call does to the caller's point\<close>




subsection \<open>Claim C8: when a bad expression fails\<close>

text \<open>
  C8 says that an expression with an unbound name fails when its function is
  built. No import binds \<open>y\<close>; yet \<open>generate_solvers\<close> and
  \<open>generate_conditions\<close> build their functions for \<open>x0 = y\<close>, and NameError is
  raised only when a built function is called.
\<close>

theorem build_time_counterexample:
  "builtins ''y'' = None \<and>
   (case generate_solvers ''x0 = y'' (Base ''x'') None builtins of
      Inl e \<Rightarrow> False
    | Inr (printed, ss) \<Rightarrow> length ss = 1 \<and> run (scall (ss ! 0)) [PyInt 1] = Inl NameError) \<and>
   (case generate_conditions ''x0 = y'' (Base ''x'') None builtins of
      Inl e \<Rightarrow> False
    | Inr (printed, ci, ce) \<Rightarrow> length ce = 1 \<and> ccall (ce ! 0) [PyInt 1] = Inl NameError)"
  by code_simp

text \<open>
  C8, amended. Building never looks into the expression: whenever the parser
  returns expressions (of printable characters without quote or backslash),
  \<open>generate_solvers\<close> and \<open>generate_conditions\<close> succeed in every namespace,
  and each built function runs its expression text at each call; an unbound
  name or a syntax error in the expression therefore fails when the compiled
  callable is invoked, not at build time.
\<close>

theorem build_defers_errors:
  "(constraints_parser c v n = Inr (pr, eqs) \<and> list_all plain_text eqs \<longrightarrow>
      (\<exists>ss. generate_solvers c v n ns = Inr (pr, ss) \<and> map sdoc ss = eqs \<and>
            map scall ss =
              map (\<lambda>t p st. bind (py_exec ns t p st) (\<lambda>st'. Inr (p, st'))) eqs))
   \<and> (penalty_parser c v n = Inr (pr', iq, eq) \<and> list_all plain_text (eq @ iq) \<longrightarrow>
      (\<exists>ci ce. generate_conditions c v n ns = Inr (pr', ci, ce) \<and>
            map cdoc ci = iq \<and> map cdoc ce = eq \<and>
            map ccall ci = map (py_eval ns) iq \<and> map ccall ce = map (py_eval ns) eq))"
proof (intro conjI impI)
  assume a: "constraints_parser c v n = Inr (pr, eqs) \<and> list_all plain_text eqs"
  then have "generate_solvers c v n ns =
      Inr (pr, map (\<lambda>t. \<lparr> sdoc = t, sname = ''solver'',
                      scall = (\<lambda>p st. bind (py_exec ns t p st) (\<lambda>st'. Inr (p, st'))) \<rparr>) eqs)"
    by (simp add: generate_solvers_def map_err_build_solver)
  then show "\<exists>ss. generate_solvers c v n ns = Inr (pr, ss) \<and> map sdoc ss = eqs \<and>
            map scall ss =
              map (\<lambda>t p st. bind (py_exec ns t p st) (\<lambda>st'. Inr (p, st'))) eqs"
    by (simp add: comp_def)
next
  assume a: "penalty_parser c v n = Inr (pr', iq, eq) \<and> list_all plain_text (eq @ iq)"
  then have "generate_conditions c v n ns =
      Inr (pr', map (\<lambda>t. \<lparr> cdoc = t, cname = ''inequality'', ccall = py_eval ns t \<rparr>) iq,
                map (\<lambda>t. \<lparr> cdoc = t, cname = ''equality'', ccall = py_eval ns t \<rparr>) eq)"
    by (simp add: generate_conditions_def map_err_build_condition)
  then show "\<exists>ci ce. generate_conditions c v n ns = Inr (pr', ci, ce) \<and>
            map cdoc ci = iq \<and> map cdoc ce = eq \<and>
            map ccall ci = map (py_eval ns) iq \<and> map ccall ce = map (py_eval ns) eq"
    by (simp add: comp_def)
qed

theorem build_defers_errors_witness:
  "\<exists>ss. generate_solvers ''x0 = y'' (Base ''x'') None builtins = Inr ([], ss) \<and>
        map sdoc ss = [''x[0] = y'']"
proof -
  have p: "constraints_parser ''x0 = y'' (Base ''x'') None = Inr ([], [''x[0] = y''])
           \<and> list_all plain_text [''x[0] = y'']"
    by code_simp
  from build_defers_errors[of "''x0 = y''" "Base ''x''" None "[]" "[''x[0] = y'']" builtins,
      THEN conjunct1, THEN mp, OF p]
  obtain ss where "generate_solvers ''x0 = y'' (Base ''x'') None builtins = Inr ([], ss)"
    and "map sdoc ss = [''x[0] = y'']"
    by (elim exE conjE)
  then show ?thesis by (intro exI conjI)
qed

subsection \<open>Claim C5: renaming and extracting again\<close>

text \<open>
  Where the text keeps the names apart from the marker, from digits and from each
  other (\<open>well_formed\<close>), renaming puts the canonical name \<open>marker i\<close> at every
  reference to the name at position \<open>i\<close>, and extraction returns these canonical
  names, each once, in the order of their first occurrence.
\<close>

theorem round_trip_on_separated_text:
  assumes "well_formed V m ps"
  shows "replace_variables (render (\<lambda>i. V ! i) ps) V (Base m) = Inr (render (\<lambda>i. m @ str_nat i) ps)
       \<and> get_variables (render (\<lambda>i. m @ str_nat i) ps) (Base m)
           = Inr (add_new [] (map (\<lambda>i. m @ str_nat i) (refs ps)))"
proof -
  from assms have m: "re_literal m" "m \<noteq> []" "CHR 0x0A \<notin> set m" "CHR 0x0D \<notin> set m"
    and sep: "separated ps"
    and pieces: "list_all (\<lambda>p. case p of Ref i \<Rightarrow> i < length V
                             | Lit c \<Rightarrow> c \<notin> set m \<and> list_all (\<lambda>v. c \<notin> set v) V) ps"
    by (simp_all add: well_formed_def)
  have lit: "\<And>c. Lit c \<in> set ps \<Longrightarrow> c \<notin> set m"
    using pieces by (auto simp: list_all_iff)
  have "findall m (render (\<lambda>i. m @ str_nat i) ps) = map (\<lambda>i. m @ str_nat i) (refs ps)"
    using m(2) lit sep by (rule findall_render)
  then have "get_variables (render (\<lambda>i. m @ str_nat i) ps) (Base m)
           = Inr (add_new [] (map (\<lambda>i. m @ str_nat i) (refs ps)))"
    using get_variables_base_findall[OF m] by (simp add: get_variables_def)
  moreover have "replace_variables (render (\<lambda>i. V ! i) ps) V (Base m)
           = Inr (render (\<lambda>i. m @ str_nat i) ps)"
    using well_formed_rename[OF assms] by (simp add: replace_variables_def)
  ultimately show ?thesis by simp
qed

lemma round_trip_scenario_b:
  "replace_variables ''spam + eggs - 42'' [''spam'', ''eggs''] (Base ''x'') = Inr ''x0 + x1 - 42''
   \<and> get_variables ''x0 + x1 - 42'' (Base ''x'') = Inr [''x0'', ''x1'']"
proof -
  define ps where "ps = [Ref 0, Lit CHR '' '', Lit CHR ''+'', Lit CHR '' '', Ref 1,
                         Lit CHR '' '', Lit CHR ''-'', Lit CHR '' '', Lit CHR ''4'', Lit CHR ''2'']"
  have wf: "well_formed [''spam'', ''eggs''] ''x'' ps" unfolding ps_def by code_simp
  have r1: "render (\<lambda>i. [''spam'', ''eggs''] ! i) ps = ''spam + eggs - 42''"
    unfolding ps_def by code_simp
  have r2: "render (\<lambda>i. ''x'' @ str_nat i) ps = ''x0 + x1 - 42''"
    unfolding ps_def by code_simp
  have r3: "add_new [] (map (\<lambda>i. ''x'' @ str_nat i) (refs ps)) = [''x0'', ''x1'']"
    unfolding ps_def by code_simp
  from round_trip_on_separated_text[OF wf] show ?thesis
    unfolding r1 r2 r3 .
qed

text \<open>
  C5. Renaming the names of \<open>V\<close> in a text that references exactly these names
  and extracting with the same marker should give canonical names whose indices
  are the positions in \<open>V\<close>; the docstring of \<open>replace_variables\<close> says that the
  first variable becomes \<open>marker 0\<close>, the second \<open>marker 1\<close>. For
  \<open>V = ['x1', 'x0']\<close>, the text \<open>x1 + x0\<close> and the marker \<open>x\<close> the first
  replacement writes \<open>x0\<close> for \<open>x1\<close> and the second then rewrites both \<open>x0\<close>:
  the result is \<open>x1 + x1\<close>, and extraction returns \<open>x1\<close> alone.
\<close>

theorem round_trip_counterexample:
  "replace_variables ''x1 + x0'' [''x1'', ''x0''] (Base ''x'') = Inr ''x1 + x1''
   \<and> get_variables ''x1 + x1'' (Base ''x'') = Inr [''x1'']"
  by code_simp

end
